theory Spec2Isabelle
  imports Main
begin

section \<open>Errors\<close>

text \<open>
  Every exception the program can meet is a value. \<open>RequestException\<close> is raised by the
  HTTP client, \<open>ParseError\<close> by the XML parser, \<open>AttributeError\<close> by \<open>None.text\<close>,
  \<open>ValueError\<close> by the URL parser, \<open>KeyError\<close> by a missing column of a data frame,
  \<open>OSError\<close> by a failed write and \<open>RecursionError\<close> by the interpreter when calls are
  nested deeper than its stack allows.
\<close>

datatype error =
  RequestException | ParseError | AttributeError | ValueError | KeyError | OSError | RecursionError

section \<open>Regular expressions of \<open>categorize_urls\<close>\<close>

text \<open>
  The three patterns of \<open>categorize_urls\<close> use literals, the class \<open>[^/]\<close>, the
  quantifiers \<open>?\<close> and \<open>+\<close> on a single character, and a final \<open>$\<close>. A pattern is a
  list of items. \<open>re.search\<close> is used for its truth value only, so the matcher decides
  whether some match exists. Python's \<open>$\<close> (no MULTILINE flag) matches at the end of the
  string and just before a newline that ends the string; \<open>[^/]\<close> matches a newline.
\<close>

datatype atom = Lit char | NotLit char

datatype item = One atom | Opt atom | Plus atom | Dollar

type_synonym regex = "item list"

definition newline :: char where
  "newline = CHR 0x0A"

fun atom_ok :: "atom \<Rightarrow> char \<Rightarrow> bool" where
  "atom_ok (Lit c) x = (x = c)"
| "atom_ok (NotLit c) x = (x \<noteq> c)"

fun match_here :: "regex \<Rightarrow> string \<Rightarrow> bool" where
  "match_here [] s = True"
| "match_here (Dollar # r) s = ((s = [] \<or> s = [newline]) \<and> match_here r s)"
| "match_here (One a # r) [] = False"
| "match_here (One a # r) (x # xs) = (atom_ok a x \<and> match_here r xs)"
| "match_here (Opt a # r) [] = match_here r []"
| "match_here (Opt a # r) (x # xs) =
     ((atom_ok a x \<and> match_here r xs) \<or> match_here r (x # xs))"
| "match_here (Plus a # r) [] = False"
| "match_here (Plus a # r) (x # xs) =
     (atom_ok a x \<and> (match_here (Plus a # r) xs \<or> match_here r xs))"

fun re_search :: "regex \<Rightarrow> string \<Rightarrow> bool" where
  "re_search r [] = match_here r []"
| "re_search r (x # xs) = (match_here r (x # xs) \<or> re_search r xs)"

definition lits :: "string \<Rightarrow> regex" where
  "lits w = map (\<lambda>c. One (Lit c)) w"

definition segment_re :: regex where
  \<comment> \<open>\<open>/[^/]+\<close>\<close>
  "segment_re = [One (Lit CHR ''/''), Plus (NotLit CHR ''/'')]"

definition tail_re :: regex where
  \<comment> \<open>\<open>/?$\<close>\<close>
  "tail_re = [Opt (Lit CHR ''/''), Dollar]"

definition product_re :: regex where
  \<comment> \<open>\<open>/products?/[^/]+/?$\<close>\<close>
  "product_re = lits ''/product'' @ [Opt (Lit CHR ''s'')] @ segment_re @ tail_re"

definition collection_re :: regex where
  \<comment> \<open>\<open>/collections?/[^/]+/?$\<close>\<close>
  "collection_re = lits ''/collection'' @ [Opt (Lit CHR ''s'')] @ segment_re @ tail_re"

definition blog_re :: regex where
  \<comment> \<open>\<open>/blogs?/[^/]+/[^/]+/?$\<close>\<close>
  "blog_re = lits ''/blog'' @ [Opt (Lit CHR ''s'')] @ segment_re @ segment_re @ tail_re"

definition classify :: "string \<Rightarrow> string" where
  \<comment> \<open>lines 74 to 83: the default, then the \<open>if\<close>/\<open>elif\<close> chain\<close>
  "classify path =
     (if re_search product_re path then ''product''
      else if re_search collection_re path then ''collection''
      else if re_search blog_re path then ''blog''
      else ''page'')"

section \<open>Strings\<close>

text \<open>
  A Python \<open>str\<close> is modelled by its UTF-8 bytes. Every character the program and
  \<open>urllib.parse\<close> look for is ASCII, and a UTF-8 multi-byte sequence holds no ASCII byte,
  so searching, splitting and the three patterns behave on the bytes as on the code points.
\<close>

fun str_find :: "char \<Rightarrow> string \<Rightarrow> nat option" where
  \<comment> \<open>\<open>s.find(c)\<close>, \<open>None\<close> for \<open>-1\<close>\<close>
  "str_find c [] = None"
| "str_find c (x # xs) = (if x = c then Some 0 else map_option Suc (str_find c xs))"

definition str_find_from :: "char \<Rightarrow> nat \<Rightarrow> string \<Rightarrow> nat option" where
  \<comment> \<open>\<open>s.find(c, k)\<close> for \<open>0 \<le> k\<close>\<close>
  "str_find_from c k s = map_option (\<lambda>i. k + i) (str_find c (drop k s))"

definition str_rfind :: "char \<Rightarrow> string \<Rightarrow> nat option" where
  \<comment> \<open>\<open>s.rfind(c)\<close>\<close>
  "str_rfind c s = map_option (\<lambda>j. length s - 1 - j) (str_find c (rev s))"

definition split1 :: "char \<Rightarrow> string \<Rightarrow> string \<times> string" where
  \<comment> \<open>\<open>s.split(c, 1)\<close> when \<open>c\<close> occurs in \<open>s\<close>\<close>
  "split1 c s = (takeWhile (\<lambda>x. x \<noteq> c) s, drop 1 (dropWhile (\<lambda>x. x \<noteq> c) s))"

definition is_ascii :: "char \<Rightarrow> bool" where
  "is_ascii c \<longleftrightarrow> (of_char c :: nat) < 128"

definition ascii_upper :: "char \<Rightarrow> bool" where
  "ascii_upper c \<longleftrightarrow> 65 \<le> (of_char c :: nat) \<and> (of_char c :: nat) \<le> 90"

definition ascii_lower :: "char \<Rightarrow> bool" where
  "ascii_lower c \<longleftrightarrow> 97 \<le> (of_char c :: nat) \<and> (of_char c :: nat) \<le> 122"

definition ascii_digit :: "char \<Rightarrow> bool" where
  "ascii_digit c \<longleftrightarrow> 48 \<le> (of_char c :: nat) \<and> (of_char c :: nat) \<le> 57"

definition lower :: "char \<Rightarrow> char" where
  "lower c = (if ascii_upper c then char_of ((of_char c :: nat) + 32) else c)"

section \<open>\<open>urllib.parse.urlparse\<close>\<close>

text \<open>
  \<open>categorize_urls\<close> reads the path through \<open>urlparse(url).path\<close>. The model follows
  \<open>urlsplit\<close>, \<open>_splitnetloc\<close>, \<open>_splitparams\<close> and \<open>urlparse\<close> of CPython 3.11 step by
  step. Two checks of that module reach into other libraries (\<open>ipaddress\<close> for a bracketed
  host, \<open>unicodedata\<close> for a non-ASCII authority); they are parameters of the model.
\<close>

record parse_result =
  scheme :: string
  netloc :: string
  path :: string
  params :: string
  query :: string
  fragment :: string

record urllib =
  check_bracketed_host :: "string \<Rightarrow> bool"
  nfkc_ok :: "string \<Rightarrow> bool"

text \<open>
  \<open>check_bracketed_host L h\<close> holds when \<open>_check_bracketed_host(h)\<close> returns and fails
  when it raises ValueError; \<open>nfkc_ok L n\<close> holds when the NFKC test of \<open>_checknetloc\<close>
  lets the non-ASCII authority \<open>n\<close> through.
\<close>

definition uses_params :: "string list" where
  "uses_params = [[], ''ftp'', ''hdl'', ''prospero'', ''http'', ''imap'',
                  ''https'', ''shttp'', ''rtsp'', ''rtsps'', ''rtspu'', ''sip'',
                  ''sips'', ''mms'', ''sftp'', ''tel'']"

definition scheme_char :: "char \<Rightarrow> bool" where
  "scheme_char c \<longleftrightarrow> ascii_lower c \<or> ascii_upper c \<or> ascii_digit c \<or>
     c = CHR ''+'' \<or> c = CHR ''-'' \<or> c = CHR ''.''"

definition c0_control_or_space :: "char \<Rightarrow> bool" where
  \<comment> \<open>\<open>_WHATWG_C0_CONTROL_OR_SPACE\<close>: the code points 0 to 32\<close>
  "c0_control_or_space c \<longleftrightarrow> (of_char c :: nat) \<le> 32"

definition unsafe_byte :: "char \<Rightarrow> bool" where
  \<comment> \<open>\<open>_UNSAFE_URL_BYTES_TO_REMOVE\<close>: tab, carriage return, newline\<close>
  "unsafe_byte c \<longleftrightarrow> c = CHR 0x09 \<or> c = CHR 0x0D \<or> c = newline"

definition split_scheme :: "string \<Rightarrow> string \<times> string" where
  \<comment> \<open>the scheme, default empty, and the rest of the URL\<close>
  "split_scheme url =
     (case str_find CHR '':'' url of
        None \<Rightarrow> ([], url)
      | Some i \<Rightarrow>
          (case url of
             [] \<Rightarrow> ([], url)
           | c # _ \<Rightarrow>
               if 0 < i \<and> is_ascii c \<and> (ascii_lower c \<or> ascii_upper c) \<and>
                  list_all scheme_char (take i url)
               then (map lower (take i url), drop (i + 1) url)
               else ([], url)))"

definition delimiter :: "char \<Rightarrow> bool" where
  "delimiter c \<longleftrightarrow> c = CHR ''/'' \<or> c = CHR ''?'' \<or> c = CHR ''#''"

definition splitnetloc :: "string \<Rightarrow> nat \<Rightarrow> string \<times> string" where
  \<comment> \<open>\<open>_splitnetloc(url, start)\<close>: up to the earliest of \<open>/\<close>, \<open>?\<close>, \<open>#\<close>\<close>
  "splitnetloc url start =
     (takeWhile (\<lambda>c. \<not> delimiter c) (drop start url),
      dropWhile (\<lambda>c. \<not> delimiter c) (drop start url))"

definition bracketed_host :: "string \<Rightarrow> string" where
  \<comment> \<open>\<open>netloc.partition('[')[2].partition(']')[0]\<close>\<close>
  "bracketed_host nl =
     takeWhile (\<lambda>c. c \<noteq> CHR '']'') (drop 1 (dropWhile (\<lambda>c. c \<noteq> CHR ''['') nl))"

definition checknetloc :: "urllib \<Rightarrow> string \<Rightarrow> bool" where
  \<comment> \<open>\<open>_checknetloc\<close> returns (True) or raises ValueError (False)\<close>
  "checknetloc L nl \<longleftrightarrow> nl = [] \<or> list_all is_ascii nl \<or> nfkc_ok L nl"

definition split_rest :: "urllib \<Rightarrow> string \<Rightarrow> string \<Rightarrow> string \<Rightarrow> error + parse_result" where
  \<comment> \<open>the end of \<open>urlsplit\<close>: fragment, query, \<open>_checknetloc\<close>\<close>
  "split_rest L sch nl url =
     (let (url1, frag) = (if CHR ''#'' \<in> set url then split1 CHR ''#'' url else (url, []));
          (url2, qry) = (if CHR ''?'' \<in> set url1 then split1 CHR ''?'' url1 else (url1, []))
      in if checknetloc L nl
         then Inr \<lparr>scheme = sch, netloc = nl, path = url2, params = [], query = qry,
                   fragment = frag\<rparr>
         else Inl ValueError)"

definition urlsplit :: "urllib \<Rightarrow> string \<Rightarrow> error + parse_result" where
  "urlsplit L url0 =
     (let url1 = dropWhile c0_control_or_space url0;
          url2 = filter (\<lambda>c. \<not> unsafe_byte c) url1;
          (sch, url3) = split_scheme url2
      in if take 2 url3 = ''//'' then
           (let (nl, url4) = splitnetloc url3 2 in
              if (CHR ''['' \<in> set nl \<and> CHR '']'' \<notin> set nl) \<or>
                 (CHR '']'' \<in> set nl \<and> CHR ''['' \<notin> set nl)
              then Inl ValueError
              else if CHR ''['' \<in> set nl \<and> CHR '']'' \<in> set nl \<and>
                      \<not> check_bracketed_host L (bracketed_host nl)
              then Inl ValueError
              else split_rest L sch nl url4)
         else split_rest L sch [] url3)"

definition splitparams :: "string \<Rightarrow> string \<times> string" where
  \<comment> \<open>\<open>_splitparams\<close>; \<open>urlparse\<close> calls it only when \<open>;\<close> occurs in the path\<close>
  "splitparams url =
     (if CHR ''/'' \<in> set url then
        (case str_rfind CHR ''/'' url of
           None \<Rightarrow> (url, [])
         | Some k \<Rightarrow>
             (case str_find_from CHR '';'' k url of
                None \<Rightarrow> (url, [])
              | Some i \<Rightarrow> (take i url, drop (i + 1) url)))
      else
        (case str_find CHR '';'' url of
           None \<Rightarrow> (butlast url, url)
         | Some i \<Rightarrow> (take i url, drop (i + 1) url)))"

definition urlparse :: "urllib \<Rightarrow> string \<Rightarrow> error + parse_result" where
  "urlparse L url =
     (case urlsplit L url of
        Inl e \<Rightarrow> Inl e
      | Inr r \<Rightarrow>
          if scheme r \<in> set uses_params \<and> CHR '';'' \<in> set (path r)
          then (let (u, p) = splitparams (path r) in Inr (r\<lparr>path := u, params := p\<rparr>))
          else Inr r)"

section \<open>XML documents\<close>

text \<open>
  An \<open>xml.etree.ElementTree.Element\<close>: its tag (in the form \<open>{namespace}local\<close> for a
  namespaced element), its text (\<open>None\<close> when the element has none) and its children in
  document order.
\<close>

datatype element = Element (tag: string) (elem_text: "string option") (children: "element list")

definition sm :: string where
  \<comment> \<open>\<open>self.namespaces['sm']\<close>\<close>
  "sm = ''http://www.sitemaps.org/schemas/sitemap/0.9''"

definition qname :: "string \<Rightarrow> string" where
  \<comment> \<open>\<open>sm:local\<close> resolved against \<open>self.namespaces\<close>\<close>
  "qname local = ''{'' @ sm @ ''}'' @ local"

fun iter :: "element \<Rightarrow> element list" where
  \<comment> \<open>\<open>Element.iter()\<close>: the element and all its descendants, in document order\<close>
  "iter (Element t x cs) = Element t x cs # concat (map iter cs)"

definition findall :: "string \<Rightarrow> element \<Rightarrow> element list" where
  \<comment> \<open>\<open>root.findall('.//sm:local', self.namespaces)\<close>: the descendants, not the root\<close>
  "findall local root = filter (\<lambda>e. tag e = qname local) (concat (map iter (children root)))"

definition find_el :: "string \<Rightarrow> element \<Rightarrow> element option" where
  \<comment> \<open>\<open>e.find('./sm:local', self.namespaces)\<close>: the first such child\<close>
  "find_el local e = List.find (\<lambda>c. tag c = qname local) (children e)"

section \<open>The parser object and its surroundings\<close>

record url_record =
  url :: string
  lastmod :: "string option"

record categorized_record = url_record +
  category :: string

text \<open>
  \<open>urls\<close> is \<open>self.urls\<close>. \<open>fetch_log\<close> lists the arguments of the calls of
  \<open>fetch_sitemap\<close> made so far, in order (the log line of line 27).
\<close>

record parser =
  urls :: "url_record list"
  fetch_log :: "string option list"

definition keys :: "categorized_record \<Rightarrow> string list" where
  \<comment> \<open>the keys of the dict of lines 85 to 89, in insertion order\<close>
  "keys r = [''url'', ''category'', ''lastmod'']"

text \<open>
  A \<open>pandas.DataFrame\<close> built from a list of dicts: its columns are the keys met in the
  dicts, in order of first appearance, so a frame built from the empty list has no column.
\<close>

record dataframe =
  columns :: "string list"
  rows :: "categorized_record list"

definition DataFrame :: "categorized_record list \<Rightarrow> dataframe" where
  "DataFrame rs = \<lparr>columns = remdups (concat (map keys rs)), rows = rs\<rparr>"

definition getitem_category :: "dataframe \<Rightarrow> error + string list" where
  \<comment> \<open>\<open>df['category']\<close>\<close>
  "getitem_category df =
     (if ''category'' \<in> set (columns df) then Inr (map category (rows df)) else Inl KeyError)"

type_synonym filesystem = "string \<rightharpoonup> dataframe"

text \<open>
  What the program does not compute itself: the HTTP client (\<open>requests.get\<close>,
  \<open>raise_for_status\<close> and \<open>.text\<close> together: the body, or the exception raised), the XML
  parser (\<open>ET.fromstring\<close>: the root, or the exception raised, \<open>ParseError\<close> on a
  document that is not well-formed), the URL library's two outside checks, the text of
  \<open>datetime.now().strftime('%Y%m%d_%H%M%S')\<close>, whether \<open>df.to_excel\<close> raises at a
  path (\<open>None\<close>: it writes the file), and the number of nested calls of \<open>parse_sitemap\<close>
  that the interpreter's stack holds under \<open>main\<close> (\<open>sys.getrecursionlimit()\<close> is 1000
  frames, and the program never changes it).
\<close>

record env =
  requests_get :: "string option \<Rightarrow> error + string"
  fromstring :: "string \<Rightarrow> error + element"
  lib :: urllib
  timestamp :: string
  to_excel :: "string \<Rightarrow> dataframe \<Rightarrow> error option"
  recursion_limit :: nat

section \<open>\<open>SitemapParser\<close>\<close>

definition fetch_sitemap :: "env \<Rightarrow> string option \<Rightarrow> parser \<Rightarrow> (error + string) \<times> parser" where
  \<comment> \<open>lines 24 to 33; the \<open>except\<close> clause logs and re-raises\<close>
  "fetch_sitemap E sitemap_url st =
     (requests_get E sitemap_url, st\<lparr>fetch_log := fetch_log st @ [sitemap_url]\<rparr>)"

definition truthy :: "string option \<Rightarrow> bool" where
  \<comment> \<open>the truth value of an optional string: neither \<open>None\<close> nor empty\<close>
  "truthy x = (case x of None \<Rightarrow> False | Some s \<Rightarrow> s \<noteq> [])"

fun url_loop :: "element list \<Rightarrow> parser \<Rightarrow> parser" where
  \<comment> \<open>lines 49 to 58\<close>
  "url_loop [] st = st"
| "url_loop (u # rest) st =
     (case find_el ''loc'' u of
        None \<Rightarrow> url_loop rest st
      | Some loc \<Rightarrow>
          (case elem_text loc of
             None \<Rightarrow> url_loop rest st
           | Some t \<Rightarrow>
               if t \<noteq> [] then
                 (let lastmod_text = (case find_el ''lastmod'' u of
                                        None \<Rightarrow> None
                                      | Some lm \<Rightarrow> elem_text lm)
                  in url_loop rest
                       (st\<lparr>urls := urls st @ [\<lparr>url = t, lastmod = lastmod_text\<rparr>]\<rparr>))
               else url_loop rest st))"

text \<open>
  \<open>parse_sitemap\<close> calls itself for every sub-sitemap, and nothing in it looks for a
  cycle: the recursion ends with the tree of documents, or with the interpreter's
  \<open>RecursionError\<close> when the nesting outgrows the stack (a sitemap index that refers to itself
  always does). The second argument is the number of nested calls that still fit; with none
  left the call raises. Where in the deepest call the interpreter gives up, in the call
  itself or in a library call it makes, depends on the frames the libraries need; the model
  lets the call itself raise. A result \<open>(Some e, st)\<close> is the exception \<open>e\<close> leaving the
  call with the object in state \<open>st\<close> (the \<open>except\<close> clause of lines 61 to 63 logs and
  re-raises); \<open>(None, st)\<close> is a normal return.
\<close>

fun parse_sitemap :: "env \<Rightarrow> nat \<Rightarrow> string \<Rightarrow> parser \<Rightarrow> error option \<times> parser"
  and sitemap_loop :: "env \<Rightarrow> nat \<Rightarrow> element list \<Rightarrow> parser \<Rightarrow> error option \<times> parser"
where
  "parse_sitemap E 0 sitemap_content st = (Some RecursionError, st)"
| "parse_sitemap E (Suc n) sitemap_content st =
     (case fromstring E sitemap_content of
        Inl e \<Rightarrow> (Some e, st)
      | Inr root \<Rightarrow>
          (case sitemap_loop E n (findall ''sitemap'' root) st of
             (Some e, st1) \<Rightarrow> (Some e, st1)
           | (None, st1) \<Rightarrow> (None, url_loop (findall ''url'' root) st1)))"
| "sitemap_loop E n [] st = (None, st)"
| "sitemap_loop E n (sitemap # rest) st =
     (case find_el ''loc'' sitemap of
        None \<Rightarrow> (Some AttributeError, st)
      | Some loc \<Rightarrow>
          (case fetch_sitemap E (elem_text loc) st of
             (Inl e, st1) \<Rightarrow> (Some e, st1)
           | (Inr sub_content, st1) \<Rightarrow>
               (case parse_sitemap E n sub_content st1 of
                  (Some e, st2) \<Rightarrow> (Some e, st2)
                | (None, st2) \<Rightarrow> sitemap_loop E n rest st2)))"

fun categorize_loop ::
  "urllib \<Rightarrow> url_record list \<Rightarrow> categorized_record list \<Rightarrow> error + categorized_record list"
where
  \<comment> \<open>lines 69 to 89\<close>
  "categorize_loop L [] categorized_urls = Inr categorized_urls"
| "categorize_loop L (url_data # rest) categorized_urls =
     (case urlparse L (url url_data) of
        Inl e \<Rightarrow> Inl e
      | Inr parsed_url \<Rightarrow>
          categorize_loop L rest
            (categorized_urls @
               [\<lparr>url = url url_data, lastmod = lastmod url_data,
                 category = classify (path parsed_url)\<rparr>]))"

definition categorize_urls :: "env \<Rightarrow> parser \<Rightarrow> error + categorized_record list" where
  "categorize_urls E st = categorize_loop (lib E) (urls st) []"

definition output_name :: "env \<Rightarrow> string option \<Rightarrow> string" where
  \<comment> \<open>lines 97 to 99: the given name, or the timestamped one when it is \<open>None\<close> or empty\<close>
  "output_name E output_file =
     (if truthy output_file
      then (case output_file of Some f \<Rightarrow> f | None \<Rightarrow> [])
      else ''sitemap_results_'' @ timestamp E @ ''.xlsx'')"

definition export_to_excel ::
  "env \<Rightarrow> categorized_record list \<Rightarrow> string option \<Rightarrow> filesystem \<Rightarrow> (error + string) \<times> filesystem"
where
  \<comment> \<open>lines 93 to 109: the frame, the file name, the write, then the summary\<close>
  "export_to_excel E categorized_urls output_file fs =
     (let df = DataFrame categorized_urls;
          out = output_name E output_file
      in case to_excel E out df of
           Some e \<Rightarrow> (Inl e, fs)
         | None \<Rightarrow>
             (case getitem_category df of
                Inl e \<Rightarrow> (Inl e, fs(out \<mapsto> df))
              | Inr cs \<Rightarrow> (Inr out, fs(out \<mapsto> df))))"

section \<open>\<open>main\<close>\<close>

record args =
  sitemap_url :: string
  output_arg :: "string option"

text \<open>
  \<open>main\<close> after \<open>parse_args\<close>: the exit status and the files on disk when it returns.
  Every exception of the four steps is caught by \<open>except Exception\<close>.
\<close>

definition main :: "env \<Rightarrow> args \<Rightarrow> filesystem \<Rightarrow> int \<times> filesystem" where
  "main E a fs =
     (case fetch_sitemap E (Some (sitemap_url a)) \<lparr>urls = [], fetch_log = []\<rparr> of
        (Inl e, st) \<Rightarrow> (1, fs)
      | (Inr sitemap_content, st) \<Rightarrow>
          (case parse_sitemap E (recursion_limit E) sitemap_content st of
             (Some e, st1) \<Rightarrow> (1, fs)
           | (None, st1) \<Rightarrow>
               (case categorize_urls E st1 of
                  Inl e \<Rightarrow> (1, fs)
                | Inr categorized_urls \<Rightarrow>
                    (case export_to_excel E categorized_urls (output_arg a) fs of
                       (Inl e, fs1) \<Rightarrow> (1, fs1)
                     | (Inr output_file, fs1) \<Rightarrow> (0, fs1)))))"

section \<open>The behaviour in the words of the specification\<close>

text \<open>
  The definitions of this section are not taken from the code. They say, in plain terms,
  what the specification promises, and the theorems compare them with the code above.
\<close>

subsection \<open>Categorization rules\<close>

text \<open>
  A segment is one or more characters other than \<open>/\<close>. A rule asks that the path end
  with \<open>/keyword\<close>, an optional \<open>s\<close>, the segments of the rule, each after a \<open>/\<close>, and
  an optional final \<open>/\<close>; anything may come before.
\<close>

definition segment :: "string \<Rightarrow> bool" where
  "segment seg \<longleftrightarrow> seg \<noteq> [] \<and> CHR ''/'' \<notin> set seg"

definition trailing :: "string \<Rightarrow> bool" where
  "trailing z \<longleftrightarrow> z = [] \<or> z = ''/''"

definition plural :: "string \<Rightarrow> bool" where
  "plural e \<longleftrightarrow> e = [] \<or> e = ''s''"

definition product_rule :: "string \<Rightarrow> bool" where
  "product_rule p \<longleftrightarrow>
     (\<exists>pre e seg z. p = pre @ ''/product'' @ e @ ''/'' @ seg @ z \<and>
        plural e \<and> segment seg \<and> trailing z)"

definition collection_rule :: "string \<Rightarrow> bool" where
  "collection_rule p \<longleftrightarrow>
     (\<exists>pre e seg z. p = pre @ ''/collection'' @ e @ ''/'' @ seg @ z \<and>
        plural e \<and> segment seg \<and> trailing z)"

definition blog_rule :: "string \<Rightarrow> bool" where
  "blog_rule p \<longleftrightarrow>
     (\<exists>pre e seg1 seg2 z. p = pre @ ''/blog'' @ e @ ''/'' @ seg1 @ ''/'' @ seg2 @ z \<and>
        plural e \<and> segment seg1 \<and> segment seg2 \<and> trailing z)"

definition first_match :: "string \<Rightarrow> string" where
  "first_match p =
     (if product_rule p then ''product''
      else if collection_rule p then ''collection''
      else if blog_rule p then ''blog''
      else ''page'')"

subsection \<open>Records of a document\<close>

text \<open>
  The record of a \<open>url\<close> entry: none when the entry has no \<open>loc\<close> child or an empty one,
  otherwise the text of \<open>loc\<close> with the text of \<open>lastmod\<close>, if there is one.
\<close>

definition entry_record :: "element \<Rightarrow> url_record option" where
  "entry_record u =
     (case find_el ''loc'' u of
        None \<Rightarrow> None
      | Some loc \<Rightarrow>
          (case elem_text loc of
             None \<Rightarrow> None
           | Some t \<Rightarrow>
               if t = [] then None
               else Some \<lparr>url = t, lastmod = Option.bind (find_el ''lastmod'' u) elem_text\<rparr>))"

definition has_loc :: "element \<Rightarrow> bool" where
  \<comment> \<open>the entry has a \<open>loc\<close> child with a text that is not empty\<close>
  "has_loc u = (case find_el ''loc'' u of None \<Rightarrow> False | Some loc \<Rightarrow> truthy (elem_text loc))"

definition records :: "element \<Rightarrow> url_record list" where
  "records root = List.map_filter entry_record (findall ''url'' root)"

subsection \<open>Depth-first traversal of a sitemap tree\<close>

definition reference :: "element \<Rightarrow> string option" where
  \<comment> \<open>what a \<open>sitemap\<close> entry refers to: the text of its \<open>loc\<close> child\<close>
  "reference s = Option.bind (find_el ''loc'' s) elem_text"

text \<open>
  \<open>sound E n c\<close>: in the tree of documents under the document \<open>c\<close>, nested less than
  \<open>n\<close> deep, every document is well-formed, every \<open>sitemap\<close> entry has a \<open>loc\<close> child and
  every reference can be fetched. \<open>visits E n c\<close> lists the references of that tree, and
  \<open>harvest E n c\<close> its records: an entry's own sub-tree first, then the next entry, and the
  records of a document after those of the documents it refers to.
\<close>

fun sound :: "env \<Rightarrow> nat \<Rightarrow> string \<Rightarrow> bool" where
  "sound E 0 c = False"
| "sound E (Suc n) c =
     (case fromstring E c of
        Inl e \<Rightarrow> False
      | Inr root \<Rightarrow>
          list_all
            (\<lambda>s. find_el ''loc'' s \<noteq> None \<and>
                 (case requests_get E (reference s) of
                    Inl e \<Rightarrow> False
                  | Inr sub \<Rightarrow> sound E n sub))
            (findall ''sitemap'' root))"

fun visits :: "env \<Rightarrow> nat \<Rightarrow> string \<Rightarrow> string option list" where
  "visits E 0 c = []"
| "visits E (Suc n) c =
     (case fromstring E c of
        Inl e \<Rightarrow> []
      | Inr root \<Rightarrow>
          concat (map (\<lambda>s. reference s #
                          (case requests_get E (reference s) of
                             Inl e \<Rightarrow> []
                           | Inr sub \<Rightarrow> visits E n sub))
                      (findall ''sitemap'' root)))"

fun harvest :: "env \<Rightarrow> nat \<Rightarrow> string \<Rightarrow> url_record list" where
  "harvest E 0 c = []"
| "harvest E (Suc n) c =
     (case fromstring E c of
        Inl e \<Rightarrow> []
      | Inr root \<Rightarrow>
          concat (map (\<lambda>s. case requests_get E (reference s) of
                              Inl e \<Rightarrow> []
                            | Inr sub \<Rightarrow> harvest E n sub)
                      (findall ''sitemap'' root))
          @ records root)"

text \<open>
  The same for one entry of an index: \<open>entry_sound E n s\<close> says that the entry \<open>s\<close> has a
  \<open>loc\<close> child and that its reference can be fetched and heads a sound tree;
  \<open>entry_visits\<close> and \<open>entry_harvest\<close> are the fetches and the records of that tree.
  \<open>passed E n ss st\<close> is the parser object \<open>st\<close> after the entries \<open>ss\<close>.
\<close>

definition entry_sound :: "env \<Rightarrow> nat \<Rightarrow> element \<Rightarrow> bool" where
  "entry_sound E n s \<longleftrightarrow> find_el ''loc'' s \<noteq> None \<and>
     (case requests_get E (reference s) of Inl e \<Rightarrow> False | Inr sub \<Rightarrow> sound E n sub)"

definition entry_visits :: "env \<Rightarrow> nat \<Rightarrow> element \<Rightarrow> string option list" where
  "entry_visits E n s =
     reference s # (case requests_get E (reference s) of Inl e \<Rightarrow> [] | Inr sub \<Rightarrow> visits E n sub)"

definition entry_harvest :: "env \<Rightarrow> nat \<Rightarrow> element \<Rightarrow> url_record list" where
  "entry_harvest E n s =
     (case requests_get E (reference s) of Inl e \<Rightarrow> [] | Inr sub \<Rightarrow> harvest E n sub)"

definition passed :: "env \<Rightarrow> nat \<Rightarrow> element list \<Rightarrow> parser \<Rightarrow> parser" where
  "passed E n ss st =
     st\<lparr>urls := urls st @ concat (map (entry_harvest E n) ss),
        fetch_log := fetch_log st @ concat (map (entry_visits E n) ss)\<rparr>"

subsection \<open>Namespaces\<close>

definition in_sitemap_namespace :: "string \<Rightarrow> bool" where
  \<comment> \<open>the tag is \<open>{namespace}local\<close> for the sitemap namespace\<close>
  "in_sitemap_namespace t \<longleftrightarrow> take (length (qname [])) t = qname []"

subsection \<open>URLs put together from their components\<close>

text \<open>
  A URL \<open>scheme://host\<close>, then a path, then nothing, a \<open>?query\<close> or a \<open>#fragment\<close>.
  \<open>url_parts\<close> asks of the components what makes the text read back as it was put
  together: a scheme that starts with a letter and holds scheme characters only, an ASCII
  host without \<open>/\<close>, \<open>?\<close>, \<open>#\<close> or brackets, a path that is empty or starts with \<open>/\<close>
  and holds neither \<open>?\<close> nor \<open>#\<close>, a rest that is empty or starts with \<open>?\<close> or \<open>#\<close>, and
  no tab, carriage return or newline anywhere. \<open>takes_params sch\<close> says that the scheme is
  one of those for which the URL parser cuts \<open>;parameters\<close> off the last segment of the
  path, and \<open>cut_params sch p\<close> is the path that is left.
\<close>

definition compose_url :: "string \<Rightarrow> string \<Rightarrow> string \<Rightarrow> string \<Rightarrow> string" where
  "compose_url sch host p sfx = sch @ ''://'' @ host @ p @ sfx"

definition url_parts :: "string \<Rightarrow> string \<Rightarrow> string \<Rightarrow> string \<Rightarrow> bool" where
  "url_parts sch host p sfx \<longleftrightarrow>
     (case sch of [] \<Rightarrow> False | c # cs \<Rightarrow> ascii_lower c \<or> ascii_upper c) \<and>
     list_all scheme_char sch \<and>
     list_all (\<lambda>c. is_ascii c \<and> \<not> delimiter c \<and> c \<noteq> CHR ''['' \<and> c \<noteq> CHR '']'' \<and>
                   \<not> unsafe_byte c) host \<and>
     (p = [] \<or> take 1 p = ''/'') \<and>
     list_all (\<lambda>c. c \<noteq> CHR ''?'' \<and> c \<noteq> CHR ''#'' \<and> \<not> unsafe_byte c) p \<and>
     (sfx = [] \<or> take 1 sfx = ''?'' \<or> take 1 sfx = ''#'') \<and>
     list_all (\<lambda>c. \<not> unsafe_byte c) sfx"

definition takes_params :: "string \<Rightarrow> bool" where
  "takes_params sch \<longleftrightarrow> map lower sch \<in> set uses_params"

definition cut_params :: "string \<Rightarrow> string \<Rightarrow> string" where
  "cut_params sch p =
     (if takes_params sch \<and> CHR '';'' \<in> set p then fst (splitparams p) else p)"

section \<open>An example site\<close>

text \<open>
  A small site used to run the definitions: the documents it serves, as text and as the
  tree the XML parser builds from that text, and the surroundings of a run. Any other
  address cannot be fetched, and the only other text given to the parser in the examples,
  \<open>malformed_body\<close>, is not well-formed.
\<close>

definition el :: "string \<Rightarrow> string option \<Rightarrow> element list \<Rightarrow> element" where
  "el local t cs = Element (qname local) t cs"

definition xmlns :: string where
  "xmlns = '' xmlns='' @ [CHR 0x22] @ sm @ [CHR 0x22]"

definition index_body :: string where
  "index_body = ''<sitemapindex'' @ xmlns @
     ''><sitemap><loc>https://example.com/a.xml</loc></sitemap>'' @
     ''<sitemap><loc>https://example.com/b.xml</loc></sitemap></sitemapindex>''"

definition index_tree :: element where
  "index_tree = el ''sitemapindex'' None
     [el ''sitemap'' None [el ''loc'' (Some ''https://example.com/a.xml'') []],
      el ''sitemap'' None [el ''loc'' (Some ''https://example.com/b.xml'') []]]"

definition a_body :: string where
  "a_body = ''<urlset'' @ xmlns @
     ''><url><loc>https://example.com/products/widget/</loc>'' @
     ''<lastmod>2024-01-01</lastmod></url></urlset>''"

definition a_tree :: element where
  "a_tree = el ''urlset'' None
     [el ''url'' None [el ''loc'' (Some ''https://example.com/products/widget/'') [],
                       el ''lastmod'' (Some ''2024-01-01'') []]]"

definition b_body :: string where
  "b_body = ''<urlset'' @ xmlns @
     ''><url><loc>https://example.com/blogs/news/my-post/</loc></url></urlset>''"

definition b_tree :: element where
  "b_tree = el ''urlset'' None
     [el ''url'' None [el ''loc'' (Some ''https://example.com/blogs/news/my-post/'') []]]"

definition mixed_body :: string where
  "mixed_body = ''<urlset'' @ xmlns @
     ''><url><loc>https://example.com/about/</loc><lastmod>2024-02-02</lastmod></url>'' @
     ''<url><lastmod>2024-03-03</lastmod></url>'' @
     ''<url><loc/></url>'' @
     ''<url><loc>https://example.com/collections/summer</loc></url></urlset>''"

definition mixed_tree :: element where
  "mixed_tree = el ''urlset'' None
     [el ''url'' None [el ''loc'' (Some ''https://example.com/about/'') [],
                       el ''lastmod'' (Some ''2024-02-02'') []],
      el ''url'' None [el ''lastmod'' (Some ''2024-03-03'') []],
      el ''url'' None [el ''loc'' None []],
      el ''url'' None [el ''loc'' (Some ''https://example.com/collections/summer'') []]]"

definition empty_body :: string where
  "empty_body = ''<urlset'' @ xmlns @ ''/>''"

definition empty_tree :: element where
  "empty_tree = el ''urlset'' None []"

definition malformed_body :: string where
  "malformed_body = ''<urlset>''"

definition plain_body :: string where
  "plain_body = ''<urlset><url><loc>https://example.com/about/</loc></url></urlset>''"

definition plain_tree :: element where
  "plain_tree = Element ''urlset'' None
     [Element ''url'' None [Element ''loc'' (Some ''https://example.com/about/'') []]]"

definition noloc_body :: string where
  "noloc_body = ''<sitemapindex'' @ xmlns @
     ''><sitemap><lastmod>2024-01-01</lastmod></sitemap>'' @
     ''<sitemap><loc>https://example.com/a.xml</loc></sitemap></sitemapindex>''"

definition noloc_tree :: element where
  "noloc_tree = el ''sitemapindex'' None
     [el ''sitemap'' None [el ''lastmod'' (Some ''2024-01-01'') []],
      el ''sitemap'' None [el ''loc'' (Some ''https://example.com/a.xml'') []]]"

definition broken_body :: string where
  "broken_body = ''<sitemapindex'' @ xmlns @
     ''><sitemap><loc>https://example.com/gone.xml</loc></sitemap>'' @
     ''<sitemap/></sitemapindex>''"

definition broken_tree :: element where
  "broken_tree = el ''sitemapindex'' None
     [el ''sitemap'' None [el ''loc'' (Some ''https://example.com/gone.xml'') []],
      el ''sitemap'' None []]"

definition twice_body :: string where
  "twice_body = ''<sitemapindex'' @ xmlns @
     ''><sitemap><loc>https://example.com/a.xml</loc></sitemap>'' @
     ''<sitemap><loc>https://example.com/a.xml</loc></sitemap></sitemapindex>''"

definition twice_tree :: element where
  "twice_tree = el ''sitemapindex'' None
     [el ''sitemap'' None [el ''loc'' (Some ''https://example.com/a.xml'') []],
      el ''sitemap'' None [el ''loc'' (Some ''https://example.com/a.xml'') []]]"

definition partial_body :: string where
  "partial_body = ''<sitemapindex'' @ xmlns @
     ''><sitemap><loc>https://example.com/a.xml</loc></sitemap>'' @
     ''<sitemap><loc>https://example.com/gone.xml</loc></sitemap>'' @
     ''<sitemap><loc>https://example.com/b.xml</loc></sitemap></sitemapindex>''"

definition partial_tree :: element where
  "partial_tree = el ''sitemapindex'' None
     [el ''sitemap'' None [el ''loc'' (Some ''https://example.com/a.xml'') []],
      el ''sitemap'' None [el ''loc'' (Some ''https://example.com/gone.xml'') []],
      el ''sitemap'' None [el ''loc'' (Some ''https://example.com/b.xml'') []]]"

definition late_body :: string where
  "late_body = ''<sitemapindex'' @ xmlns @
     ''><sitemap><loc>https://example.com/a.xml</loc></sitemap>'' @
     ''<sitemap><lastmod>2024-01-01</lastmod></sitemap></sitemapindex>''"

definition late_tree :: element where
  "late_tree = el ''sitemapindex'' None
     [el ''sitemap'' None [el ''loc'' (Some ''https://example.com/a.xml'') []],
      el ''sitemap'' None [el ''lastmod'' (Some ''2024-01-01'') []]]"

definition loop_body :: string where
  "loop_body = ''<sitemapindex'' @ xmlns @
     ''><sitemap><loc>https://example.com/loop.xml</loc></sitemap></sitemapindex>''"

definition loop_tree :: element where
  "loop_tree = el ''sitemapindex'' None
     [el ''sitemap'' None [el ''loc'' (Some ''https://example.com/loop.xml'') []]]"

definition spoiled_body :: string where
  "spoiled_body = ''<sitemapindex'' @ xmlns @
     ''><sitemap><loc>https://example.com/malformed.xml</loc></sitemap>'' @
     ''<sitemap/></sitemapindex>''"

definition spoiled_tree :: element where
  "spoiled_tree = el ''sitemapindex'' None
     [el ''sitemap'' None [el ''loc'' (Some ''https://example.com/malformed.xml'') []],
      el ''sitemap'' None []]"

definition pages :: "(string option \<times> string) list" where
  "pages =
     [(Some ''https://example.com/sitemap.xml'', index_body),
      (Some ''https://example.com/a.xml'', a_body),
      (Some ''https://example.com/b.xml'', b_body),
      (Some ''https://example.com/mixed.xml'', mixed_body),
      (Some ''https://example.com/empty.xml'', empty_body),
      (Some ''https://example.com/malformed.xml'', malformed_body),
      (Some ''https://example.com/plain.xml'', plain_body),
      (Some ''https://example.com/noloc.xml'', noloc_body),
      (Some ''https://example.com/broken.xml'', broken_body),
      (Some ''https://example.com/twice.xml'', twice_body),
      (Some ''https://example.com/partial.xml'', partial_body),
      (Some ''https://example.com/late.xml'', late_body),
      (Some ''https://example.com/loop.xml'', loop_body),
      (Some ''https://example.com/spoiled.xml'', spoiled_body)]"

definition documents :: "(string \<times> element) list" where
  "documents =
     [(index_body, index_tree), (a_body, a_tree), (b_body, b_tree),
      (mixed_body, mixed_tree), (empty_body, empty_tree), (plain_body, plain_tree),
      (noloc_body, noloc_tree), (broken_body, broken_tree), (twice_body, twice_tree),
      (partial_body, partial_tree), (late_body, late_tree), (loop_body, loop_tree),
      (spoiled_body, spoiled_tree)]"

definition example_lib :: urllib where
  "example_lib = \<lparr>check_bracketed_host = (\<lambda>h. h = ''::1''), nfkc_ok = (\<lambda>n. True)\<rparr>"

definition example_env :: env where
  "example_env =
     \<lparr>requests_get = (\<lambda>u. case map_of pages u of
                              None \<Rightarrow> Inl RequestException
                            | Some body \<Rightarrow> Inr body),
      fromstring = (\<lambda>c. case map_of documents c of
                            None \<Rightarrow> Inl ParseError
                          | Some root \<Rightarrow> Inr root),
      lib = example_lib,
      timestamp = ''20240101_120000'',
      to_excel = (\<lambda>out df. if take 10 out = ''/readonly/'' then Some OSError else None),
      recursion_limit = 1000\<rparr>"

definition fresh :: parser where
  \<comment> \<open>the object after \<open>__init__\<close>\<close>
  "fresh = \<lparr>urls = [], fetch_log = []\<rparr>"

subsection \<open>The categorizer on the URLs the parser accepts\<close>

text \<open>
  \<open>accepted L d\<close>: \<open>urlparse\<close> returns on the URL of the record \<open>d\<close>; \<open>path_of L u\<close> is
  the path component it returns for \<open>u\<close>.
\<close>

definition accepted :: "urllib \<Rightarrow> url_record \<Rightarrow> bool" where
  "accepted L d = (case urlparse L (url d) of Inl e \<Rightarrow> False | Inr r \<Rightarrow> True)"

definition path_of :: "urllib \<Rightarrow> string \<Rightarrow> string" where
  "path_of L u = (case urlparse L u of Inl e \<Rightarrow> [] | Inr r \<Rightarrow> path r)"

definition categorized :: "urllib \<Rightarrow> url_record \<Rightarrow> categorized_record" where
  "categorized L d = \<lparr>url = url d, lastmod = lastmod d, category = classify (path_of L (url d))\<rparr>"

definition three_urls :: parser where
  "three_urls =
     \<lparr>urls = [\<lparr>url = ''https://example.com/products/widget/'', lastmod = Some ''2024-01-01''\<rparr>,
              \<lparr>url = ''https://example.com/about/'', lastmod = None\<rparr>,
              \<lparr>url = ''https://example.com/blogs/news/my-post/'', lastmod = None\<rparr>],
      fetch_log = []\<rparr>"

subsection \<open>More examples\<close>

definition bracket_url :: parser where
  "bracket_url = \<lparr>urls = [\<lparr>url = ''http://[/products/x'', lastmod = None\<rparr>], fetch_log = []\<rparr>"

definition half_accepted :: parser where
  "half_accepted =
     \<lparr>urls = [\<lparr>url = ''https://example.com/products/widget/'', lastmod = None\<rparr>,
              \<lparr>url = ''http://[/products/x'', lastmod = None\<rparr>],
      fetch_log = []\<rparr>"

definition with_query :: url_record where
  "with_query = \<lparr>url = ''http://shop.example.org/products/widget?ref=mail#top'', lastmod = None\<rparr>"

definition without_query :: url_record where
  "without_query = \<lparr>url = ''https://example.com/products/widget'', lastmod = Some ''2024-01-01''\<rparr>"

definition semicolon_https :: url_record where
  "semicolon_https = \<lparr>url = ''https://example.com/products/;x'', lastmod = None\<rparr>"

definition semicolon_foo :: url_record where
  "semicolon_foo = \<lparr>url = ''foo://example.com/products/;x'', lastmod = None\<rparr>"

definition gone_entry :: element where
  "gone_entry = el ''sitemap'' None [el ''loc'' (Some ''https://example.com/gone.xml'') []]"

definition malformed_entry :: element where
  "malformed_entry = el ''sitemap'' None [el ''loc'' (Some ''https://example.com/malformed.xml'') []]"

definition b_entry :: element where
  "b_entry = el ''sitemap'' None [el ''loc'' (Some ''https://example.com/b.xml'') []]"

definition no_loc_entry :: element where
  "no_loc_entry = el ''sitemap'' None [el ''lastmod'' (Some ''2024-01-01'') []]"

definition a_entry :: element where
  "a_entry = el ''sitemap'' None [el ''loc'' (Some ''https://example.com/a.xml'') []]"

subsection \<open>References to plain documents\<close>

text \<open>
  \<open>refers_to_urlset E s\<close>: the reference of the entry \<open>s\<close> can be fetched and is a
  well-formed document with no \<open>sitemap\<close> entry of its own.
\<close>

definition refers_to_urlset :: "env \<Rightarrow> element \<Rightarrow> bool" where
  "refers_to_urlset E s =
     (case requests_get E (reference s) of
        Inl e \<Rightarrow> False
      | Inr sub \<Rightarrow>
          (case fromstring E sub of
             Inl e \<Rightarrow> False
           | Inr r \<Rightarrow> findall ''sitemap'' r = []))"

section \<open>Lemmas\<close>

subsection \<open>The matcher\<close>

lemma match_lit: "match_here (One (Lit c) # r) s = (\<exists>t. s = c # t \<and> match_here r t)"
  by (cases s) auto

lemma match_lits: "match_here (lits w @ r) s = (\<exists>t. s = w @ t \<and> match_here r t)"
  by (induction w arbitrary: s) (auto simp: lits_def match_lit)

lemma match_opt:
  "match_here (Opt a # r) s =
     ((\<exists>x t. s = x # t \<and> atom_ok a x \<and> match_here r t) \<or> match_here r s)"
  by (cases s) auto

lemma match_plus:
  "match_here (Plus a # r) s =
     (\<exists>seg t. s = seg @ t \<and> seg \<noteq> [] \<and> (\<forall>x\<in>set seg. atom_ok a x) \<and> match_here r t)"
proof (induction s)
  case Nil
  then show ?case by simp
next
  case (Cons x xs)
  show ?case
  proof
    assume "match_here (Plus a # r) (x # xs)"
    then have ok: "atom_ok a x" and d: "match_here (Plus a # r) xs \<or> match_here r xs"
      by auto
    from d show "\<exists>seg t. x # xs = seg @ t \<and> seg \<noteq> [] \<and> (\<forall>x\<in>set seg. atom_ok a x) \<and> match_here r t"
    proof
      assume "match_here (Plus a # r) xs"
      with Cons obtain seg t
        where "xs = seg @ t" "seg \<noteq> []" "\<forall>x\<in>set seg. atom_ok a x" "match_here r t"
        by blast
      with ok show ?thesis by (intro exI[of _ "x # seg"] exI[of _ t]) simp
    next
      assume "match_here r xs"
      with ok show ?thesis by (intro exI[of _ "[x]"] exI[of _ xs]) simp
    qed
  next
    assume "\<exists>seg t. x # xs = seg @ t \<and> seg \<noteq> [] \<and> (\<forall>x\<in>set seg. atom_ok a x) \<and> match_here r t"
    then obtain seg t
      where h: "x # xs = seg @ t" "seg \<noteq> []" "\<forall>x\<in>set seg. atom_ok a x" "match_here r t"
      by blast
    then obtain seg' where s: "seg = x # seg'" "xs = seg' @ t" by (cases seg) auto
    show "match_here (Plus a # r) (x # xs)"
    proof (cases "seg' = []")
      case True
      with s h show ?thesis by simp
    next
      case False
      with s h have "match_here (Plus a # r) xs" using Cons by auto
      with s h show ?thesis by simp
    qed
  qed
qed

lemma search_iff: "re_search r s = (\<exists>pre t. s = pre @ t \<and> match_here r t)"
proof (induction s)
  case Nil
  then show ?case by simp
next
  case (Cons x xs)
  have "(\<exists>pre t. x # xs = pre @ t \<and> match_here r t) =
        (match_here r (x # xs) \<or> (\<exists>pre t. xs = pre @ t \<and> match_here r t))"
    by (auto simp: Cons_eq_append_conv)
  with Cons show ?case by simp
qed

lemma search_prefix: "re_search r p \<Longrightarrow> re_search r (pre @ p)"
  unfolding search_iff by (metis append.assoc)

lemma match_tail:
  "match_here tail_re s =
     (s = [] \<or> s = [newline] \<or> s = ''/'' \<or> s = CHR ''/'' # [newline])"
  by (cases s) (auto simp: tail_re_def newline_def)

lemma match_tail_plain: "newline \<notin> set s \<Longrightarrow> match_here tail_re s = trailing s"
  by (auto simp: match_tail trailing_def)

lemma match_segment:
  "match_here (segment_re @ r) s =
     (\<exists>seg t. s = ''/'' @ seg @ t \<and> segment seg \<and> match_here r t)"
  by (auto simp: segment_re_def segment_def match_lit match_plus)

lemma search_keyword:
  "re_search (lits w @ [Opt (Lit CHR ''s'')] @ r) s =
     (\<exists>pre e t. s = pre @ w @ e @ t \<and> plural e \<and> match_here r t)"
proof
  assume "re_search (lits w @ [Opt (Lit CHR ''s'')] @ r) s"
  then obtain pre u where u: "s = pre @ w @ u" "match_here (Opt (Lit CHR ''s'') # r) u"
    by (auto simp: search_iff match_lits)
  from u(2) consider t where "u = CHR ''s'' # t" "match_here r t" | "match_here r u"
    by (auto simp: match_opt)
  then show "\<exists>pre e t. s = pre @ w @ e @ t \<and> plural e \<and> match_here r t"
  proof cases
    case 1
    with u(1) have "s = pre @ w @ ''s'' @ t \<and> plural ''s'' \<and> match_here r t"
      by (simp add: plural_def)
    then show ?thesis by blast
  next
    case 2
    with u(1) have "s = pre @ w @ [] @ u \<and> plural [] \<and> match_here r u"
      by (simp add: plural_def)
    then show ?thesis by blast
  qed
next
  assume "\<exists>pre e t. s = pre @ w @ e @ t \<and> plural e \<and> match_here r t"
  then obtain pre e t where h: "s = pre @ w @ e @ t" "plural e" "match_here r t" by blast
  then have "match_here (Opt (Lit CHR ''s'') # r) (e @ t)"
    by (auto simp: match_opt plural_def)
  with h(1) show "re_search (lits w @ [Opt (Lit CHR ''s'')] @ r) s"
    by (auto simp: search_iff match_lits)
qed

lemma one_segment_iff:
  assumes "newline \<notin> set s"
  shows "re_search (lits w @ [Opt (Lit CHR ''s'')] @ segment_re @ tail_re) s =
     (\<exists>pre e seg z. s = pre @ w @ e @ ''/'' @ seg @ z \<and> plural e \<and> segment seg \<and> trailing z)"
proof -
  have "re_search (lits w @ [Opt (Lit CHR ''s'')] @ segment_re @ tail_re) s =
      (\<exists>pre e seg z. s = pre @ w @ e @ ''/'' @ seg @ z \<and> plural e \<and> segment seg \<and>
         match_here tail_re z)"
    by (simp only: search_keyword match_segment) blast
  also have "\<dots> =
      (\<exists>pre e seg z. s = pre @ w @ e @ ''/'' @ seg @ z \<and> plural e \<and> segment seg \<and> trailing z)"
  proof -
    have "match_here tail_re z = trailing z"
      if "s = pre @ w @ e @ ''/'' @ seg @ z" for pre e seg z
      using assms that by (intro match_tail_plain) auto
    then show ?thesis by blast
  qed
  finally show ?thesis .
qed

lemma two_segments_iff:
  assumes "newline \<notin> set s"
  shows "re_search (lits w @ [Opt (Lit CHR ''s'')] @ segment_re @ segment_re @ tail_re) s =
     (\<exists>pre e seg1 seg2 z. s = pre @ w @ e @ ''/'' @ seg1 @ ''/'' @ seg2 @ z \<and> plural e \<and>
        segment seg1 \<and> segment seg2 \<and> trailing z)"
proof -
  have "re_search (lits w @ [Opt (Lit CHR ''s'')] @ segment_re @ segment_re @ tail_re) s =
      (\<exists>pre e seg1 seg2 z. s = pre @ w @ e @ ''/'' @ seg1 @ ''/'' @ seg2 @ z \<and> plural e \<and>
         segment seg1 \<and> segment seg2 \<and> match_here tail_re z)"
    by (simp only: search_keyword match_segment) blast
  also have "\<dots> =
      (\<exists>pre e seg1 seg2 z. s = pre @ w @ e @ ''/'' @ seg1 @ ''/'' @ seg2 @ z \<and> plural e \<and>
         segment seg1 \<and> segment seg2 \<and> trailing z)"
  proof -
    have "match_here tail_re z = trailing z"
      if "s = pre @ w @ e @ ''/'' @ seg1 @ ''/'' @ seg2 @ z" for pre e seg1 seg2 z
      using assms that by (intro match_tail_plain) auto
    then show ?thesis by blast
  qed
  finally show ?thesis .
qed

lemma product_re_iff: "newline \<notin> set p \<Longrightarrow> re_search product_re p = product_rule p"
  unfolding product_re_def product_rule_def by (rule one_segment_iff)

lemma collection_re_iff: "newline \<notin> set p \<Longrightarrow> re_search collection_re p = collection_rule p"
  unfolding collection_re_def collection_rule_def by (rule one_segment_iff)

lemma blog_re_iff: "newline \<notin> set p \<Longrightarrow> re_search blog_re p = blog_rule p"
  unfolding blog_re_def blog_rule_def by (rule two_segments_iff)

lemma classify_first_match: "newline \<notin> set p \<Longrightarrow> classify p = first_match p"
  by (simp add: classify_def first_match_def product_re_iff collection_re_iff blog_re_iff)

lemma classify_range: "classify p \<in> {''page'', ''product'', ''collection'', ''blog''}"
  by (simp add: classify_def)

subsection \<open>The URL parser\<close>

lemma split_scheme_subset: "set (snd (split_scheme u)) \<subseteq> set u"
  by (auto simp: split_scheme_def split: option.splits list.splits dest: in_set_dropD)

lemma splitnetloc_subset: "set (snd (splitnetloc u k)) \<subseteq> set u"
  by (auto simp: splitnetloc_def dest: set_dropWhileD in_set_dropD)

lemma split1_subset: "set (fst (split1 c u)) \<subseteq> set u"
  by (auto simp: split1_def dest: set_takeWhileD)

lemma split_rest_path:
  assumes "split_rest L sch nl u = Inr r"
  shows "set (path r) \<subseteq> set u"
proof -
  define u1 where "u1 = (if CHR ''#'' \<in> set u then fst (split1 CHR ''#'' u) else u)"
  define u2 where "u2 = (if CHR ''?'' \<in> set u1 then fst (split1 CHR ''?'' u1) else u1)"
  have "set u1 \<subseteq> set u" using split1_subset[of "CHR ''#''" u] by (simp add: u1_def)
  moreover have "set u2 \<subseteq> set u1" using split1_subset[of "CHR ''?''" u1] by (simp add: u2_def)
  moreover from assms have "path r = u2"
    by (auto simp: split_rest_def Let_def u1_def u2_def split: if_splits prod.splits)
  ultimately show ?thesis by auto
qed

lemma split_rest_error: "split_rest L sch nl u = Inl e \<Longrightarrow> e = ValueError"
  by (auto simp: split_rest_def Let_def split: if_splits prod.splits)

lemma urlsplit_path: 
  assumes "urlsplit L u = Inr r"
  shows "newline \<notin> set (path r)"
proof -
  define u2 where "u2 = filter (\<lambda>c. \<not> unsafe_byte c) (dropWhile c0_control_or_space u)"
  have n2: "newline \<notin> set u2" by (auto simp: u2_def unsafe_byte_def)
  obtain sch u3 where s: "split_scheme u2 = (sch, u3)" by (cases "split_scheme u2")
  have n3: "newline \<notin> set u3" using split_scheme_subset[of u2] n2 s by auto
  show ?thesis
  proof (cases "take 2 u3 = ''//''")
    case True
    obtain nl u4 where t: "splitnetloc u3 2 = (nl, u4)" by (cases "splitnetloc u3 2")
    have n4: "newline \<notin> set u4" using splitnetloc_subset[of u3 2] n3 t by auto
    from assms s t True have "split_rest L sch nl u4 = Inr r"
      by (auto simp: urlsplit_def Let_def u2_def split: if_splits)
    from split_rest_path[OF this] n4 show ?thesis by auto
  next
    case False
    from assms s False have "split_rest L sch [] u3 = Inr r"
      by (auto simp: urlsplit_def Let_def u2_def split: if_splits)
    from split_rest_path[OF this] n3 show ?thesis by auto
  qed
qed

lemma urlsplit_error: "urlsplit L u = Inl e \<Longrightarrow> e = ValueError"
  by (auto simp: urlsplit_def Let_def split: if_splits prod.splits dest: split_rest_error)

lemma splitparams_subset: "set (fst (splitparams u)) \<subseteq> set u"
  by (auto simp: splitparams_def split: option.splits dest: in_set_takeD in_set_butlastD)

lemma urlparse_path:
  assumes "urlparse L u = Inr r"
  shows "newline \<notin> set (path r)"
proof (cases "urlsplit L u")
  case (Inl e)
  with assms show ?thesis by (simp add: urlparse_def)
next
  case (Inr q)
  then have n: "newline \<notin> set (path q)" by (rule urlsplit_path)
  show ?thesis
  proof (cases "scheme q \<in> set uses_params \<and> CHR '';'' \<in> set (path q)")
    case True
    with assms Inr have "path r = fst (splitparams (path q))"
      by (auto simp: urlparse_def Let_def split: prod.splits)
    with n splitparams_subset[of "path q"] show ?thesis by auto
  next
    case False
    with assms Inr have "r = q" by (auto simp: urlparse_def)
    with n show ?thesis by simp
  qed
qed

lemma urlparse_error: "urlparse L u = Inl e \<Longrightarrow> e = ValueError"
  by (auto simp: urlparse_def Let_def split: sum.splits if_splits prod.splits dest: urlsplit_error)

subsection \<open>The categorizer\<close>

lemma categorize_loop_accepted:
  "list_all (accepted L) ds \<Longrightarrow> categorize_loop L ds acc = Inr (acc @ map (categorized L) ds)"
  by (induction ds arbitrary: acc)
     (auto simp: accepted_def categorized_def path_of_def split: sum.splits)

lemma categorize_loop_rejected:
  "\<not> list_all (accepted L) ds \<Longrightarrow> categorize_loop L ds acc = Inl ValueError"
  by (induction ds arbitrary: acc)
     (auto simp: accepted_def split: sum.splits dest: urlparse_error)

lemma categorize_urls_accepted:
  assumes "list_all (accepted (lib E)) (urls st)"
  shows "categorize_urls E st =
     Inr (map (\<lambda>d. \<lparr>url = url d, lastmod = lastmod d,
                     category = first_match (path_of (lib E) (url d))\<rparr>) (urls st))"
proof -
  have "categorized (lib E) d =
      \<lparr>url = url d, lastmod = lastmod d, category = first_match (path_of (lib E) (url d))\<rparr>"
    if "accepted (lib E) d" for d
  proof -
    from that obtain r where r: "urlparse (lib E) (url d) = Inr r"
      by (auto simp: accepted_def split: sum.splits)
    then have "newline \<notin> set (path r)" by (rule urlparse_path)
    with r show ?thesis
      by (simp add: categorized_def path_of_def classify_first_match)
  qed
  with assms have "map (categorized (lib E)) (urls st) =
      map (\<lambda>d. \<lparr>url = url d, lastmod = lastmod d,
                 category = first_match (path_of (lib E) (url d))\<rparr>) (urls st)"
    by (intro map_cong) (auto simp: list_all_iff)
  with assms show ?thesis
    by (simp add: categorize_urls_def categorize_loop_accepted)
qed

subsection \<open>The traversal\<close>

lemma url_loop_records:
  "url_loop us st = st\<lparr>urls := urls st @ List.map_filter entry_record us\<rparr>"
proof (induction us arbitrary: st)
  case Nil
  then show ?case by (simp add: map_filter_simps)
next
  case (Cons u us)
  have lm: "(case find_el ''lastmod'' u of None \<Rightarrow> None | Some lm \<Rightarrow> elem_text lm) =
      Option.bind (find_el ''lastmod'' u) elem_text"
    by (simp split: option.splits)
  show ?case
    by (simp add: Cons.IH entry_record_def map_filter_simps Let_def lm split: option.splits)
qed

lemma entry_record_has_loc: "(entry_record u \<noteq> None) = has_loc u"
  by (simp add: entry_record_def has_loc_def truthy_def split: option.splits)

lemma length_map_filter: "length (List.map_filter f xs) = length (filter (\<lambda>x. f x \<noteq> None) xs)"
  by (induction xs) (auto simp: map_filter_simps split: option.splits)

lemma length_records: "length (records root) = length (filter has_loc (findall ''url'' root))"
proof -
  have "(\<lambda>u. entry_record u \<noteq> None) = has_loc"
    by (rule ext) (rule entry_record_has_loc)
  then show ?thesis
    by (simp only: records_def length_map_filter)
qed

lemma iter_children: "set (concat (map iter (children root))) \<subseteq> set (iter root)"
  by (cases root) auto

lemma findall_foreign:
  assumes "\<forall>e\<in>set (iter root). \<not> in_sitemap_namespace (tag e)"
  shows "findall l root = []"
proof -
  have "in_sitemap_namespace (qname l)"
    by (simp add: in_sitemap_namespace_def qname_def)
  with assms iter_children[of root] have "\<forall>e\<in>set (concat (map iter (children root))). tag e \<noteq> qname l"
    by (metis subsetD)
  then show ?thesis
    unfolding findall_def by (simp add: filter_empty_conv)
qed

lemma parse_sitemap_leaf:
  assumes "fromstring E c = Inr root" and "findall ''sitemap'' root = []"
  shows "parse_sitemap E (Suc n) c st = (None, st\<lparr>urls := urls st @ records root\<rparr>)"
  using assms by (simp add: url_loop_records records_def)

lemma parse_sitemap_raises:
  "fromstring E c = Inl e \<Longrightarrow> parse_sitemap E (Suc n) c st = (Some e, st)"
  by simp

lemma sitemap_loop_append:
  "sitemap_loop E n (xs @ ys) st =
     (case sitemap_loop E n xs st of
        (Some e, st1) \<Rightarrow> (Some e, st1)
      | (None, st1) \<Rightarrow> sitemap_loop E n ys st1)"
proof (induction xs arbitrary: st)
  case Nil
  then show ?case by simp
next
  case (Cons x xs)
  show ?case
    by (simp add: Cons.IH split: option.splits sum.splits prod.splits)
qed

lemma sitemap_loop_no_loc:
  assumes "find_el ''loc'' s = None"
  shows "fst (sitemap_loop E n (xs @ s # ys) st) \<noteq> None"
  using assms
  by (auto simp: sitemap_loop_append split: option.splits prod.splits)

lemma sitemap_loop_sound:
  assumes IH: "\<And>c st. sound E n c \<Longrightarrow>
      parse_sitemap E m c st =
        (None, st\<lparr>urls := urls st @ harvest E n c, fetch_log := fetch_log st @ visits E n c\<rparr>)"
    and ok: "list_all (\<lambda>s. find_el ''loc'' s \<noteq> None \<and>
                 (case requests_get E (reference s) of
                    Inl e \<Rightarrow> False
                  | Inr sub \<Rightarrow> sound E n sub)) ss"
  shows "sitemap_loop E m ss st =
     (None,
       st\<lparr>urls := urls st @
             concat (map (\<lambda>s. case requests_get E (reference s) of
                                 Inl e \<Rightarrow> []
                               | Inr sub \<Rightarrow> harvest E n sub) ss),
          fetch_log := fetch_log st @
             concat (map (\<lambda>s. reference s #
                               (case requests_get E (reference s) of
                                  Inl e \<Rightarrow> []
                                | Inr sub \<Rightarrow> visits E n sub)) ss)\<rparr>)"
  using ok
proof (induction ss arbitrary: st)
  case Nil
  then show ?case by simp
next
  case (Cons s ss)
  from Cons.prems obtain loc sub
    where loc: "find_el ''loc'' s = Some loc"
      and get: "requests_get E (reference s) = Inr sub"
      and snd: "sound E n sub"
    by (auto split: sum.splits)
  from loc have ref: "reference s = elem_text loc" by (simp add: reference_def)
  from Cons.prems have rest: "list_all (\<lambda>s. find_el ''loc'' s \<noteq> None \<and>
                 (case requests_get E (reference s) of
                    Inl e \<Rightarrow> False
                  | Inr sub \<Rightarrow> sound E n sub)) ss"
    by simp
  show ?case
    using loc get ref
    by (simp add: fetch_sitemap_def IH[OF snd] Cons.IH[OF rest])
qed

lemma parse_sitemap_sound:
  "sound E n c \<Longrightarrow> n \<le> m \<Longrightarrow>
     parse_sitemap E m c st =
       (None, st\<lparr>urls := urls st @ harvest E n c, fetch_log := fetch_log st @ visits E n c\<rparr>)"
proof (induction n arbitrary: m c st)
  case 0
  then show ?case by simp
next
  case (Suc n)
  from Suc.prems(2) obtain m' where m: "m = Suc m'" and le: "n \<le> m'"
    by (cases m) auto
  from Suc.prems obtain root where root: "fromstring E c = Inr root"
    by (auto split: sum.splits)
  with Suc.prems have ok: "list_all (\<lambda>s. find_el ''loc'' s \<noteq> None \<and>
                 (case requests_get E (reference s) of
                    Inl e \<Rightarrow> False
                  | Inr sub \<Rightarrow> sound E n sub)) (findall ''sitemap'' root)"
    by simp
  have IH: "parse_sitemap E m' c' st' =
        (None, st'\<lparr>urls := urls st' @ harvest E n c',
                   fetch_log := fetch_log st' @ visits E n c'\<rparr>)"
    if "sound E n c'" for c' st'
    using that le by (rule Suc.IH)
  show ?case
    using root m
    by (simp add: sitemap_loop_sound[OF IH ok] url_loop_records records_def)
qed

text \<open>A result that is not the interpreter's error is the same one level deeper.\<close>

lemma sitemap_loop_deeper:
  assumes P: "\<And>c st. fst (parse_sitemap E n c st) \<noteq> Some RecursionError \<Longrightarrow>
      parse_sitemap E (Suc n) c st = parse_sitemap E n c st"
  shows "fst (sitemap_loop E n ss st) \<noteq> Some RecursionError \<Longrightarrow>
      sitemap_loop E (Suc n) ss st = sitemap_loop E n ss st"
proof (induction ss arbitrary: st)
  case Nil
  then show ?case by simp
next
  case (Cons s ss)
  show ?case
  proof (cases "find_el ''loc'' s")
    case None
    then show ?thesis by simp
  next
    case (Some loc)
    obtain res st1 where f: "fetch_sitemap E (elem_text loc) st = (res, st1)"
      by (cases "fetch_sitemap E (elem_text loc) st")
    show ?thesis
    proof (cases res)
      case (Inl e)
      with Some f show ?thesis by simp
    next
      case (Inr sub)
      obtain eo st2 where q: "parse_sitemap E n sub st1 = (eo, st2)"
        by (cases "parse_sitemap E n sub st1")
      from Cons.prems Some f Inr q have ne: "eo \<noteq> Some RecursionError"
        by (auto split: option.splits)
      with q have "fst (parse_sitemap E n sub st1) \<noteq> Some RecursionError" by simp
      from P[OF this] q have q': "parse_sitemap E (Suc n) sub st1 = (eo, st2)" by simp
      show ?thesis
      proof (cases eo)
        case None
        with Cons.prems Some f Inr q
        have "fst (sitemap_loop E n ss st2) \<noteq> Some RecursionError" by simp
        then have "sitemap_loop E (Suc n) ss st2 = sitemap_loop E n ss st2" by (rule Cons.IH)
        with \<open>find_el ''loc'' s = Some loc\<close> f Inr q q' None show ?thesis
          by (simp del: parse_sitemap.simps)
      next
        case (Some e)
        with \<open>find_el ''loc'' s = Some loc\<close> f Inr q q' show ?thesis
          by (simp del: parse_sitemap.simps)
      qed
    qed
  qed
qed

lemma parse_sitemap_deeper:
  "fst (parse_sitemap E n c st) \<noteq> Some RecursionError \<Longrightarrow>
     parse_sitemap E (Suc n) c st = parse_sitemap E n c st"
proof (induction n arbitrary: c st)
  case 0
  then show ?case by simp
next
  case (Suc n)
  show ?case
  proof (cases "fromstring E c")
    case (Inl e)
    then show ?thesis by simp
  next
    case (Inr root)
    obtain eo st1 where q: "sitemap_loop E n (findall ''sitemap'' root) st = (eo, st1)"
      by (cases "sitemap_loop E n (findall ''sitemap'' root) st")
    from Suc.prems Inr q have "eo \<noteq> Some RecursionError"
      by (auto split: option.splits)
    with q have ne: "fst (sitemap_loop E n (findall ''sitemap'' root) st) \<noteq> Some RecursionError"
      by simp
    have "sitemap_loop E (Suc n) (findall ''sitemap'' root) st =
        sitemap_loop E n (findall ''sitemap'' root) st"
    proof (rule sitemap_loop_deeper)
      show "parse_sitemap E (Suc n) c' st' = parse_sitemap E n c' st'"
        if "fst (parse_sitemap E n c' st') \<noteq> Some RecursionError" for c' st'
        using that by (rule Suc.IH)
      show "fst (sitemap_loop E n (findall ''sitemap'' root) st) \<noteq> Some RecursionError"
        by (rule ne)
    qed
    with Inr show ?thesis
      by (simp del: sitemap_loop.simps)
  qed
qed

lemma parse_sitemap_any_deeper:
  "fst (parse_sitemap E n c st) \<noteq> Some RecursionError \<Longrightarrow>
     parse_sitemap E (n + k) c st = parse_sitemap E n c st"
proof (induction k)
  case 0
  then show ?case by simp
next
  case (Suc k)
  then have "fst (parse_sitemap E (n + k) c st) \<noteq> Some RecursionError" by simp
  then have "parse_sitemap E (Suc (n + k)) c st = parse_sitemap E (n + k) c st"
    by (rule parse_sitemap_deeper)
  with Suc show ?case by (simp del: parse_sitemap.simps)
qed

text \<open>A sitemap index that lists itself: the traversal fetches it until the stack is full.\<close>

lemma self_reference_overflows:
  assumes "fromstring E c = Inr root"
    and "findall ''sitemap'' root = [s]"
    and "find_el ''loc'' s = Some loc"
    and "requests_get E (elem_text loc) = Inr c"
  shows "parse_sitemap E n c st =
     (Some RecursionError, st\<lparr>fetch_log := fetch_log st @ replicate n (elem_text loc)\<rparr>)"
proof (induction n arbitrary: st)
  case 0
  show ?case by simp
next
  case (Suc n)
  show ?case
    using assms
    by (simp add: fetch_sitemap_def Suc.IH replicate_append_same)
qed

lemma visits_urlset:
  assumes "fromstring E c = Inr r" and "findall ''sitemap'' r = []"
  shows "visits E n c = []"
  using assms by (cases n) simp_all

lemma visits_flat:
  assumes "fromstring E c = Inr root"
    and "list_all (refers_to_urlset E) (findall ''sitemap'' root)"
  shows "visits E (Suc n) c = map reference (findall ''sitemap'' root)"
proof -
  have "(reference s #
          (case requests_get E (reference s) of Inl e \<Rightarrow> [] | Inr sub \<Rightarrow> visits E n sub)) =
        [reference s]"
    if "s \<in> set (findall ''sitemap'' root)" for s
  proof -
    from that assms(2) have "refers_to_urlset E s" by (simp add: list_all_iff)
    then obtain sub r where "requests_get E (reference s) = Inr sub"
        "fromstring E sub = Inr r" "findall ''sitemap'' r = []"
      by (auto simp: refers_to_urlset_def split: sum.splits)
    then show ?thesis by (simp add: visits_urlset)
  qed
  then have "concat (map (\<lambda>s. reference s #
          (case requests_get E (reference s) of Inl e \<Rightarrow> [] | Inr sub \<Rightarrow> visits E n sub))
        (findall ''sitemap'' root)) =
      concat (map (\<lambda>s. [reference s]) (findall ''sitemap'' root))"
    by (intro arg_cong[where f = concat] map_cong) auto
  also have "\<dots> = map reference (findall ''sitemap'' root)"
    by (induction "findall ''sitemap'' root") auto
  finally show ?thesis using assms(1) by simp
qed

lemma repeated_reference_fetched_twice:
  "parse_sitemap example_env 2 twice_body fresh =
     (None,
       \<lparr>urls = [\<lparr>url = ''https://example.com/products/widget/'', lastmod = Some ''2024-01-01''\<rparr>,
                \<lparr>url = ''https://example.com/products/widget/'', lastmod = Some ''2024-01-01''\<rparr>],
        fetch_log = [Some ''https://example.com/a.xml'', Some ''https://example.com/a.xml'']\<rparr>)"
  by code_simp

subsection \<open>What a run leaves on disk\<close>

lemma export_writes_or_not:
  "export_to_excel E cats out fs = (r, fs') \<Longrightarrow>
     (fs' = fs \<and> r \<noteq> Inr (output_name E out)) \<or>
     (fs' = fs(output_name E out \<mapsto> DataFrame cats) \<and>
      to_excel E (output_name E out) (DataFrame cats) = None)"
  by (auto simp: export_to_excel_def Let_def split: option.splits sum.splits)

lemma getitem_category_nonempty: "cats \<noteq> [] \<Longrightarrow> getitem_category (DataFrame cats) = Inr (map category cats)"
  by (cases cats) (auto simp: getitem_category_def DataFrame_def keys_def)

lemma export_after_write:
  assumes "to_excel E (output_name E out) (DataFrame cats) = None"
  shows "export_to_excel E cats out fs =
     (if cats = [] then Inl KeyError else Inr (output_name E out),
      fs(output_name E out \<mapsto> DataFrame cats))"
proof (cases "cats = []")
  case True
  with assms show ?thesis
    by (simp add: export_to_excel_def getitem_category_def DataFrame_def)
next
  case False
  with assms show ?thesis
    by (simp add: export_to_excel_def getitem_category_nonempty Let_def)
qed

lemma export_write_fails:
  "to_excel E (output_name E out) (DataFrame cats) = Some e \<Longrightarrow>
     export_to_excel E cats out fs = (Inl e, fs)"
  by (simp add: export_to_excel_def)

lemma main_failure_files:
  assumes "main E a fs = (1, fs')"
  shows "fs' = fs \<or> fs' = fs(output_name E (output_arg a) \<mapsto> DataFrame [])"
proof (cases "fs' = fs")
  case True
  then show ?thesis by simp
next
  case False
  with assms obtain cats e where
    ex: "export_to_excel E cats (output_arg a) fs = (Inl e, fs')"
    by (auto simp: main_def split: prod.splits sum.splits option.splits)
  show ?thesis
  proof (cases "to_excel E (output_name E (output_arg a)) (DataFrame cats)")
    case None
    from export_after_write[OF None, of fs] ex show ?thesis
      by (auto split: if_splits)
  next
    case (Some e')
    from export_write_fails[OF Some, of fs] ex False show ?thesis by simp
  qed
qed

lemma main_stops_before_export:
  assumes "requests_get E (Some (sitemap_url a)) = Inr c"
    and "fst (parse_sitemap E (recursion_limit E) c
                \<lparr>urls = [], fetch_log = [Some (sitemap_url a)]\<rparr>) \<noteq> None"
  shows "main E a fs = (1, fs)"
  using assms
  by (auto simp: main_def fetch_sitemap_def split: prod.splits option.splits)

lemma main_fetch_fails:
  "requests_get E (Some (sitemap_url a)) = Inl e \<Longrightarrow> main E a fs = (1, fs)"
  by (simp add: main_def fetch_sitemap_def)

lemma main_self_reference:
  "main example_env \<lparr>sitemap_url = ''https://example.com/loop.xml'', output_arg = None\<rparr> fs =
     (1, fs)"
proof -
  have a: "requests_get example_env (Some ''https://example.com/loop.xml'') = Inr loop_body"
    by code_simp
  have b: "fromstring example_env loop_body = Inr loop_tree" by code_simp
  have c: "findall ''sitemap'' loop_tree =
      [el ''sitemap'' None [el ''loc'' (Some ''https://example.com/loop.xml'') []]]"
    by code_simp
  have d: "find_el ''loc'' (el ''sitemap'' None [el ''loc'' (Some ''https://example.com/loop.xml'') []]) =
      Some (el ''loc'' (Some ''https://example.com/loop.xml'') [])"
    by code_simp
  have e: "elem_text (el ''loc'' (Some ''https://example.com/loop.xml'') []) =
      Some ''https://example.com/loop.xml''"
    by code_simp
  have "fst (parse_sitemap example_env (recursion_limit example_env) loop_body
          \<lparr>urls = [], fetch_log = [Some ''https://example.com/loop.xml'']\<rparr>) = Some RecursionError"
    using self_reference_overflows[OF b c d] a e by simp
  then have "fst (parse_sitemap example_env (recursion_limit example_env) loop_body
          \<lparr>urls = [], fetch_log = [Some (sitemap_url
             \<lparr>sitemap_url = ''https://example.com/loop.xml'', output_arg = None\<rparr>)]\<rparr>) \<noteq> None"
    by simp
  moreover have "requests_get example_env (Some (sitemap_url
             \<lparr>sitemap_url = ''https://example.com/loop.xml'', output_arg = None\<rparr>)) = Inr loop_body"
    using a by simp
  ultimately show ?thesis
    by (intro main_stops_before_export)
qed

subsection \<open>URLs put together from their components\<close>

lemma str_find_append: "c \<notin> set xs \<Longrightarrow> str_find c (xs @ c # ys) = Some (length xs)"
  by (induction xs) auto

lemma scheme_char_plain: "scheme_char c \<Longrightarrow> c \<noteq> CHR '':'' \<and> \<not> unsafe_byte c"
  by (auto simp: scheme_char_def ascii_lower_def ascii_upper_def ascii_digit_def
      unsafe_byte_def newline_def)

lemma letter_plain:
  "ascii_lower c \<or> ascii_upper c \<Longrightarrow> is_ascii c \<and> \<not> c0_control_or_space c"
  by (auto simp: ascii_lower_def ascii_upper_def is_ascii_def c0_control_or_space_def)

lemma takeWhile_stop:
  assumes "list_all P xs" and "ys = [] \<or> \<not> P (hd ys)"
  shows "takeWhile P (xs @ ys) = xs" and "dropWhile P (xs @ ys) = ys"
proof -
  from assms(2) have t: "takeWhile P ys = []" and d: "dropWhile P ys = ys"
    by (cases ys; auto)+
  from assms(1) show "takeWhile P (xs @ ys) = xs"
    by (simp add: list_all_iff takeWhile_append2 t)
  from assms(1) show "dropWhile P (xs @ ys) = ys"
    by (simp add: list_all_iff dropWhile_append2 d)
qed

lemma takeWhile_absent: "c \<notin> set xs \<Longrightarrow> takeWhile (\<lambda>x. x \<noteq> c) xs = xs"
  by (induction xs) auto

lemma split_rest_composed:
  assumes nl: "checknetloc L nl"
    and p: "list_all (\<lambda>c. c \<noteq> CHR ''?'' \<and> c \<noteq> CHR ''#'') p"
    and sfx: "sfx = [] \<or> take 1 sfx = ''?'' \<or> take 1 sfx = ''#''"
  shows "\<exists>r. split_rest L sch nl (p @ sfx) = Inr r \<and> scheme r = sch \<and> netloc r = nl \<and>
              path r = p"
proof -
  define u1 where "u1 = (if CHR ''#'' \<in> set (p @ sfx)
                         then fst (split1 CHR ''#'' (p @ sfx)) else p @ sfx)"
  define u2 where "u2 = (if CHR ''?'' \<in> set u1 then fst (split1 CHR ''?'' u1) else u1)"
  have t1: "u1 = takeWhile (\<lambda>x. x \<noteq> CHR ''#'') (p @ sfx)"
    by (simp add: u1_def split1_def takeWhile_absent)
  have t2: "u2 = takeWhile (\<lambda>x. x \<noteq> CHR ''?'') u1"
    by (simp add: u2_def split1_def takeWhile_absent)
  from p have p1: "list_all (\<lambda>x. x \<noteq> CHR ''#'') p" and p2: "list_all (\<lambda>x. x \<noteq> CHR ''?'') p"
    by (simp_all add: list_all_iff)
  define s1 where "s1 = takeWhile (\<lambda>x. x \<noteq> CHR ''#'') sfx"
  from p1 have u1': "u1 = p @ s1"
    by (simp add: t1 s1_def list_all_iff takeWhile_append2)
  from sfx have "s1 = [] \<or> \<not> (hd s1 \<noteq> CHR ''?'')"
    by (cases sfx) (auto simp: s1_def)
  with p2 have "u2 = p"
    unfolding t2 u1' by (intro takeWhile_stop(1)) auto
  moreover have "split_rest L sch nl (p @ sfx) =
      Inr \<lparr>scheme = sch, netloc = nl, path = u2, params = [],
           query = (if CHR ''?'' \<in> set u1 then snd (split1 CHR ''?'' u1) else []),
           fragment = (if CHR ''#'' \<in> set (p @ sfx) then snd (split1 CHR ''#'' (p @ sfx)) else [])\<rparr>"
    using nl by (simp add: split_rest_def u1_def u2_def Let_def split_beta)
  ultimately show ?thesis by simp
qed

lemma composed_lstrip:
  assumes "ascii_lower c \<or> ascii_upper c"
  shows "dropWhile c0_control_or_space (c # cs) = c # cs"
  using letter_plain[OF assms] by simp

lemma composed_clean:
  assumes "list_all scheme_char sch"
    and "list_all (\<lambda>c. \<not> unsafe_byte c) host"
    and "list_all (\<lambda>c. \<not> unsafe_byte c) p"
    and "list_all (\<lambda>c. \<not> unsafe_byte c) sfx"
  shows "filter (\<lambda>c. \<not> unsafe_byte c) (sch @ ''://'' @ host @ p @ sfx) = sch @ ''://'' @ host @ p @ sfx"
proof -
  have a: "filter (\<lambda>c. \<not> unsafe_byte c) xs = xs" if "list_all (\<lambda>c. \<not> unsafe_byte c) xs" for xs
    using that by (simp add: list_all_iff filter_id_conv)
  have "list_all (\<lambda>c. \<not> unsafe_byte c) sch"
    using assms(1) scheme_char_plain by (auto simp: list_all_iff)
  moreover have "list_all (\<lambda>c. \<not> unsafe_byte c) ''://''"
    by (simp add: unsafe_byte_def newline_def)
  ultimately show ?thesis
    using assms(2-4) by (simp only: filter_append a)
qed

lemma composed_scheme:
  assumes letter: "ascii_lower c \<or> ascii_upper c"
    and schars: "list_all scheme_char (c # cs)"
  shows "split_scheme ((c # cs) @ CHR '':'' # rest) = (map lower (c # cs), rest)"
proof -
  have colon: "CHR '':'' \<notin> set (c # cs)"
    using schars scheme_char_plain by (auto simp: list_all_iff)
  have f: "str_find CHR '':'' (c # cs @ CHR '':'' # rest) = Some (Suc (length cs))"
    using str_find_append[OF colon, of rest] by (simp del: str_find.simps)
  show ?thesis
    using letter letter_plain[OF letter] schars
    by (simp add: split_scheme_def f del: str_find.simps)
qed

lemma composed_netloc:
  assumes host: "list_all (\<lambda>c. \<not> delimiter c) host"
    and p0: "p = [] \<or> take 1 p = ''/''"
    and s0: "sfx = [] \<or> take 1 sfx = ''?'' \<or> take 1 sfx = ''#''"
  shows "splitnetloc (''//'' @ host @ p @ sfx) 2 = (host, p @ sfx)"
proof -
  have rest: "p @ sfx = [] \<or> \<not> \<not> delimiter (hd (p @ sfx))"
    using p0 s0 by (cases p; cases sfx) (auto simp: delimiter_def)
  have d: "drop 2 (''//'' @ host @ p @ sfx) = host @ (p @ sfx)" by simp
  show ?thesis
    unfolding splitnetloc_def d
    using takeWhile_stop[OF host rest] by simp
qed

lemma urlsplit_composed:
  assumes "url_parts sch host p sfx"
  shows "\<exists>r. urlsplit L (compose_url sch host p sfx) = Inr r \<and> scheme r = map lower sch \<and>
              netloc r = host \<and> path r = p"
proof -
  from assms obtain c cs where sch: "sch = c # cs" and letter: "ascii_lower c \<or> ascii_upper c"
    by (auto simp: url_parts_def split: list.splits)
  from assms have schars: "list_all scheme_char sch"
    and host: "list_all (\<lambda>c. is_ascii c \<and> \<not> delimiter c \<and> c \<noteq> CHR ''['' \<and> c \<noteq> CHR '']'' \<and>
                   \<not> unsafe_byte c) host"
    and p0: "p = [] \<or> take 1 p = ''/''"
    and p: "list_all (\<lambda>c. c \<noteq> CHR ''?'' \<and> c \<noteq> CHR ''#'' \<and> \<not> unsafe_byte c) p"
    and s0: "sfx = [] \<or> take 1 sfx = ''?'' \<or> take 1 sfx = ''#''"
    and s: "list_all (\<lambda>c. \<not> unsafe_byte c) sfx"
    by (simp_all add: url_parts_def)
  define rest where "rest = ''//'' @ host @ p @ sfx"
  define u where "u = compose_url sch host p sfx"
  have u: "u = (c # cs) @ CHR '':'' # rest"
    by (simp add: u_def compose_url_def rest_def sch)
  have u': "u = sch @ ''://'' @ host @ p @ sfx"
    by (simp add: u_def compose_url_def)
  have l1: "dropWhile c0_control_or_space u = u"
    unfolding u using composed_lstrip[OF letter] by simp
  have hostc: "list_all (\<lambda>c. \<not> unsafe_byte c) host"
    and hostd: "list_all (\<lambda>c. \<not> delimiter c) host"
    and hosta: "list_all is_ascii host"
    and nobr: "CHR ''['' \<notin> set host" "CHR '']'' \<notin> set host"
    using host by (auto simp: list_all_iff)
  have pc: "list_all (\<lambda>c. \<not> unsafe_byte c) p"
    and p': "list_all (\<lambda>c. c \<noteq> CHR ''?'' \<and> c \<noteq> CHR ''#'') p"
    using p by (auto simp: list_all_iff)
  have l2: "filter (\<lambda>c. \<not> unsafe_byte c) u = u"
    unfolding u' using schars hostc pc s by (rule composed_clean)
  have l3: "split_scheme u = (map lower sch, rest)"
    unfolding u sch using letter schars[unfolded sch] by (rule composed_scheme)
  have l4: "splitnetloc rest 2 = (host, p @ sfx)"
    unfolding rest_def using hostd p0 s0 by (rule composed_netloc)
  have t2: "take 2 rest = ''//''" by (simp add: rest_def)
  have cn: "checknetloc L host"
    using hosta by (simp add: checknetloc_def)
  from split_rest_composed[OF cn p' s0, of "map lower sch"]
  obtain r where r: "split_rest L (map lower sch) host (p @ sfx) = Inr r"
      "scheme r = map lower sch" "netloc r = host" "path r = p"
    by blast
  have "urlsplit L u = Inr r"
    unfolding urlsplit_def l1 l2 Let_def l3 prod.case t2 l4
    using nobr r(1) by simp
  with r show ?thesis by (auto simp: u_def)
qed

lemma urlparse_composed:
  assumes "url_parts sch host p sfx"
  shows "\<exists>r. urlparse L (compose_url sch host p sfx) = Inr r \<and> path r = cut_params sch p"
proof -
  from urlsplit_composed[OF assms, of L]
  obtain r where r: "urlsplit L (compose_url sch host p sfx) = Inr r"
      "scheme r = map lower sch" "path r = p"
    by blast
  show ?thesis
  proof (cases "takes_params sch \<and> CHR '';'' \<in> set p")
    case True
    with r have "urlparse L (compose_url sch host p sfx) =
        Inr (r\<lparr>path := fst (splitparams p), params := snd (splitparams p)\<rparr>)"
      by (simp add: urlparse_def takes_params_def split_beta)
    with True show ?thesis by (simp add: cut_params_def)
  next
    case False
    with r have "urlparse L (compose_url sch host p sfx) = Inr r"
      by (auto simp: urlparse_def takes_params_def)
    with False r show ?thesis by (auto simp: cut_params_def)
  qed
qed

lemma composed_accepted:
  assumes "url_parts sch host p sfx"
  shows "accepted L \<lparr>url = compose_url sch host p sfx, lastmod = l\<rparr> \<and>
     path_of L (compose_url sch host p sfx) = cut_params sch p"
proof -
  from urlparse_composed[OF assms, of L]
  obtain r where "urlparse L (compose_url sch host p sfx) = Inr r" "path r = cut_params sch p"
    by blast
  then show ?thesis by (simp add: accepted_def path_of_def)
qed

subsection \<open>Entries of a sitemap index\<close>

lemma sound_Suc:
  "sound E (Suc n) c =
     (case fromstring E c of
        Inl e \<Rightarrow> False
      | Inr root \<Rightarrow> list_all (entry_sound E n) (findall ''sitemap'' root))"
proof -
  have "(\<lambda>s. find_el ''loc'' s \<noteq> None \<and>
             (case requests_get E (reference s) of Inl e \<Rightarrow> False | Inr sub \<Rightarrow> sound E n sub)) =
        entry_sound E n"
    by (rule ext) (simp only: entry_sound_def)
  then show ?thesis by (simp only: sound.simps)
qed

lemma sitemap_loop_entries:
  assumes "list_all (entry_sound E n) ss" and "n \<le> m"
  shows "sitemap_loop E m ss st =
     (None, st\<lparr>urls := urls st @ concat (map (entry_harvest E n) ss),
               fetch_log := fetch_log st @ concat (map (entry_visits E n) ss)\<rparr>)"
proof -
  have IH: "parse_sitemap E m c' st' =
        (None, st'\<lparr>urls := urls st' @ harvest E n c',
                   fetch_log := fetch_log st' @ visits E n c'\<rparr>)"
    if "sound E n c'" for c' st'
    using that assms(2) by (rule parse_sitemap_sound)
  have ok: "list_all (\<lambda>s. find_el ''loc'' s \<noteq> None \<and>
                 (case requests_get E (reference s) of
                    Inl e \<Rightarrow> False
                  | Inr sub \<Rightarrow> sound E n sub)) ss"
    using assms(1) by (simp add: entry_sound_def list_all_iff)
  have h: "(\<lambda>s. case requests_get E (reference s) of Inl e \<Rightarrow> [] | Inr sub \<Rightarrow> harvest E n sub) =
      entry_harvest E n"
    by (rule ext) (simp add: entry_harvest_def)
  have v: "(\<lambda>s. reference s #
        (case requests_get E (reference s) of Inl e \<Rightarrow> [] | Inr sub \<Rightarrow> visits E n sub)) =
      entry_visits E n"
    by (rule ext) (simp add: entry_visits_def)
  from sitemap_loop_sound[OF IH ok, of st] show ?thesis
    by (simp only: h v)
qed

lemma sitemap_loop_normal_sound:
  assumes P: "\<And>c st. fst (parse_sitemap E n c st) = None \<Longrightarrow> sound E n c"
  shows "fst (sitemap_loop E n ss st) = None \<Longrightarrow> list_all (entry_sound E n) ss"
proof (induction ss arbitrary: st)
  case Nil
  then show ?case by simp
next
  case (Cons s ss)
  from Cons.prems obtain loc where loc: "find_el ''loc'' s = Some loc"
    by (cases "find_el ''loc'' s") auto
  then have ref: "reference s = elem_text loc" by (simp add: reference_def)
  obtain res st1 where f: "fetch_sitemap E (elem_text loc) st = (res, st1)"
    by (cases "fetch_sitemap E (elem_text loc) st")
  then have res: "res = requests_get E (elem_text loc)"
    by (simp add: fetch_sitemap_def)
  from Cons.prems loc f obtain sub where sub: "res = Inr sub"
    by (cases res) auto
  obtain eo st2 where q: "parse_sitemap E n sub st1 = (eo, st2)"
    by (cases "parse_sitemap E n sub st1")
  from Cons.prems loc f sub q have eo: "eo = None"
    by (cases eo) auto
  with q have "fst (parse_sitemap E n sub st1) = None" by simp
  then have s1: "sound E n sub" by (rule P)
  from Cons.prems loc f sub q eo have "fst (sitemap_loop E n ss st2) = None" by simp
  then have "list_all (entry_sound E n) ss" by (rule Cons.IH)
  moreover have "entry_sound E n s"
  proof -
    from res sub ref have "requests_get E (reference s) = Inr sub" by simp
    with loc s1 show ?thesis by (simp add: entry_sound_def)
  qed
  ultimately show ?case by simp
qed

lemma normal_return_sound:
  "fst (parse_sitemap E n c st) = None \<Longrightarrow> sound E n c"
proof (induction n arbitrary: c st)
  case 0
  then show ?case by simp
next
  case (Suc n)
  from Suc.prems obtain root where root: "fromstring E c = Inr root"
    by (cases "fromstring E c") auto
  obtain eo st1 where q: "sitemap_loop E n (findall ''sitemap'' root) st = (eo, st1)"
    by (cases "sitemap_loop E n (findall ''sitemap'' root) st")
  from Suc.prems root q have "eo = None" by (cases eo) auto
  with q have "fst (sitemap_loop E n (findall ''sitemap'' root) st) = None" by simp
  then have "list_all (entry_sound E n) (findall ''sitemap'' root)"
  proof (rule sitemap_loop_normal_sound[rotated])
    show "sound E n c'" if "fst (parse_sitemap E n c' st') = None" for c' st'
      using that by (rule Suc.IH)
  qed
  with root show ?case by (simp only: sound_Suc sum.case)
qed

lemma normal_return_iff_sound:
  "fst (parse_sitemap E n c st) = None \<longleftrightarrow> sound E n c"
  using normal_return_sound[of E n c st] parse_sitemap_sound[of E n c n st]
  by auto

lemma sitemap_loop_stops_at_failure:
  assumes good: "list_all (entry_sound E n) good" and le: "n \<le> m"
  shows "sitemap_loop E m (good @ f # later) st =
     (case sitemap_loop E m [f]
             (st\<lparr>urls := urls st @ concat (map (entry_harvest E n) good),
                  fetch_log := fetch_log st @ concat (map (entry_visits E n) good)\<rparr>) of
        (Some e, st1) \<Rightarrow> (Some e, st1)
      | (None, st1) \<Rightarrow> sitemap_loop E m later st1)"
proof -
  have "sitemap_loop E m (good @ [f] @ later) st =
      (case sitemap_loop E m good st of
         (Some e, st1) \<Rightarrow> (Some e, st1)
       | (None, st1) \<Rightarrow> sitemap_loop E m ([f] @ later) st1)"
    by (simp only: sitemap_loop_append)
  also have "\<dots> = sitemap_loop E m ([f] @ later)
      (st\<lparr>urls := urls st @ concat (map (entry_harvest E n) good),
          fetch_log := fetch_log st @ concat (map (entry_visits E n) good)\<rparr>)"
    by (simp only: sitemap_loop_entries[OF good le] prod.case option.case)
  also have "\<dots> = (case sitemap_loop E m [f]
             (st\<lparr>urls := urls st @ concat (map (entry_harvest E n) good),
                  fetch_log := fetch_log st @ concat (map (entry_visits E n) good)\<rparr>) of
        (Some e, st1) \<Rightarrow> (Some e, st1)
      | (None, st1) \<Rightarrow> sitemap_loop E m later st1)"
    by (simp only: sitemap_loop_append)
  finally show ?thesis by simp
qed

lemma passed_nothing: "passed E n [] st = st"
  by (simp add: passed_def)

lemma sitemap_loop_passed:
  "list_all (entry_sound E m) ss \<Longrightarrow> sitemap_loop E m ss st = (None, passed E m ss st)"
  unfolding passed_def by (rule sitemap_loop_entries) simp_all

lemma sitemap_loop_after_passed:
  assumes "list_all (entry_sound E m) good"
  shows "sitemap_loop E m (good @ rest) st = sitemap_loop E m rest (passed E m good st)"
  using assms by (simp add: sitemap_loop_append sitemap_loop_passed)

section \<open>Claims\<close>

text \<open>
  C1 (amended). The categorizer gives the URLs of a list their categories all together or
  not at all. When the URL parser accepts every URL of the list, each URL gets the category
  of the first rule, in the order product, collection, blog, that the path of the URL
  satisfies, and \<open>page\<close> when it satisfies none. When the URL parser rejects a URL of the
  list, the call fails with the parser's \<open>ValueError\<close> and no URL of the list gets a
  category. The paths \<open>/products/widget/\<close>, \<open>/about/\<close> and \<open>/blogs/news/my-post/\<close> are a
  product, a page and a blog.
\<close>

theorem categorize_first_match_wins:
  "(list_all (accepted (lib E)) (urls st) \<longrightarrow>
      categorize_urls E st =
        Inr (map (\<lambda>d. \<lparr>url = url d, lastmod = lastmod d,
                        category = first_match (path_of (lib E) (url d))\<rparr>) (urls st))) \<and>
   (\<not> list_all (accepted (lib E)) (urls st) \<longrightarrow> categorize_urls E st = Inl ValueError) \<and>
   classify ''/products/widget/'' = ''product'' \<and>
   classify ''/about/'' = ''page'' \<and>
   classify ''/blogs/news/my-post/'' = ''blog''"
proof (intro conjI impI)
  assume "list_all (accepted (lib E)) (urls st)"
  then show "categorize_urls E st =
        Inr (map (\<lambda>d. \<lparr>url = url d, lastmod = lastmod d,
                        category = first_match (path_of (lib E) (url d))\<rparr>) (urls st))"
    by (rule categorize_urls_accepted)
next
  assume "\<not> list_all (accepted (lib E)) (urls st)"
  then show "categorize_urls E st = Inl ValueError"
    by (simp add: categorize_urls_def categorize_loop_rejected)
next
  show "classify ''/products/widget/'' = ''product''" by code_simp
  show "classify ''/about/'' = ''page''" by code_simp
  show "classify ''/blogs/news/my-post/'' = ''blog''" by code_simp
qed

text \<open>
  Three URLs that the URL parser accepts, and a list of two of which it rejects the second.
\<close>

theorem categorize_first_match_wins_witness:
  "list_all (accepted (lib example_env)) (urls three_urls) \<and>
   map (\<lambda>d. first_match (path_of (lib example_env) (url d))) (urls three_urls) =
     [''product'', ''page'', ''blog''] \<and>
   \<not> list_all (accepted (lib example_env)) (urls half_accepted) \<and>
   categorize_urls example_env half_accepted = Inl ValueError"
proof -
  have h: "list_all (accepted (lib example_env)) (urls three_urls)" by code_simp
  have n: "\<not> list_all (accepted (lib example_env)) (urls half_accepted)" by code_simp
  have c: "categorize_urls example_env three_urls =
      Inr [\<lparr>url = ''https://example.com/products/widget/'', lastmod = Some ''2024-01-01'',
             category = ''product''\<rparr>,
           \<lparr>url = ''https://example.com/about/'', lastmod = None, category = ''page''\<rparr>,
           \<lparr>url = ''https://example.com/blogs/news/my-post/'', lastmod = None,
             category = ''blog''\<rparr>]"
    by code_simp
  from categorize_first_match_wins[of example_env three_urls] h c
  have "map (\<lambda>d. \<lparr>url = url d, lastmod = lastmod d,
                   category = first_match (path_of (lib example_env) (url d))\<rparr>) (urls three_urls) =
        [\<lparr>url = ''https://example.com/products/widget/'', lastmod = Some ''2024-01-01'',
             category = ''product''\<rparr>,
           \<lparr>url = ''https://example.com/about/'', lastmod = None, category = ''page''\<rparr>,
           \<lparr>url = ''https://example.com/blogs/news/my-post/'', lastmod = None,
             category = ''blog''\<rparr>]"
    by simp
  then have "map category (map (\<lambda>d. \<lparr>url = url d, lastmod = lastmod d,
                   category = first_match (path_of (lib example_env) (url d))\<rparr>) (urls three_urls)) =
        [''product'', ''page'', ''blog'']"
    by simp
  then have m: "map (\<lambda>d. first_match (path_of (lib example_env) (url d))) (urls three_urls) =
     [''product'', ''page'', ''blog'']"
    by (simp add: comp_def)
  from categorize_first_match_wins[of example_env half_accepted] n
  have "categorize_urls example_env half_accepted = Inl ValueError" by blast
  with h m n show ?thesis by simp
qed

text \<open>
  The claim as first stated gives every URL a category. The first URL of the list below is
  accepted and its path is that of a product, yet the call that holds it ends with the
  error of the second URL, and with no category for either.
\<close>

theorem rejected_url_leaves_no_category:
  "accepted (lib example_env) \<lparr>url = ''https://example.com/products/widget/'', lastmod = None\<rparr> \<and>
   urls half_accepted =
     [\<lparr>url = ''https://example.com/products/widget/'', lastmod = None\<rparr>,
      \<lparr>url = ''http://[/products/x'', lastmod = None\<rparr>] \<and>
   categorize_urls example_env half_accepted = Inl ValueError"
  by code_simp

text \<open>
  C2. A well-formed document with no \<open>sitemap\<close> entry, parsed where the stack holds the
  call, returns normally and fetches nothing. It appends to the list one record for each
  \<open>url\<close> entry whose \<open>loc\<close> child is there with a text that is not empty, in document
  order, with the text of \<open>loc\<close> as url and the text of \<open>lastmod\<close>, if any, as lastmod.
  The other \<open>url\<close> entries are passed over without an error, so the number of records
  is the number of entries with such a \<open>loc\<close>.
\<close>

theorem urlset_records_in_document_order:
  assumes "fromstring E content = Inr root"
    and "findall ''sitemap'' root = []"
  shows "parse_sitemap E (Suc n) content st =
           (None, st\<lparr>urls := urls st @ List.map_filter entry_record (findall ''url'' root)\<rparr>) \<and>
         length (List.map_filter entry_record (findall ''url'' root)) =
           length (filter has_loc (findall ''url'' root))"
  using assms parse_sitemap_leaf[of E content root n st] length_records[of root]
  by (simp add: records_def)

text \<open>
  The example document has four \<open>url\<close> entries: one with \<open>loc\<close> and \<open>lastmod\<close>, one
  without \<open>loc\<close>, one with an empty \<open>loc\<close>, one with \<open>loc\<close> alone.
\<close>

theorem urlset_records_in_document_order_witness:
  "fromstring example_env mixed_body = Inr mixed_tree \<and>
   findall ''sitemap'' mixed_tree = [] \<and>
   length (findall ''url'' mixed_tree) = 4 \<and>
   parse_sitemap example_env 1 mixed_body fresh =
     (None,
       \<lparr>urls = [\<lparr>url = ''https://example.com/about/'', lastmod = Some ''2024-02-02''\<rparr>,
                \<lparr>url = ''https://example.com/collections/summer'', lastmod = None\<rparr>],
        fetch_log = []\<rparr>)"
proof -
  have a: "fromstring example_env mixed_body = Inr mixed_tree" by code_simp
  have b: "findall ''sitemap'' mixed_tree = []" by code_simp
  have c: "length (findall ''url'' mixed_tree) = 4" by code_simp
  have d: "List.map_filter entry_record (findall ''url'' mixed_tree) =
      [\<lparr>url = ''https://example.com/about/'', lastmod = Some ''2024-02-02''\<rparr>,
       \<lparr>url = ''https://example.com/collections/summer'', lastmod = None\<rparr>]"
    by code_simp
  from urlset_records_in_document_order[OF a b, of 0 fresh] a b c d
  show ?thesis by (simp add: fresh_def)
qed

text \<open>
  C3 (amended). The traversal of a document returns normally exactly when the tree of
  documents under it is sound within the nesting that the stack holds: every document
  well-formed, every \<open>sitemap\<close> entry with a \<open>loc\<close> child, every reference fetched without
  an error. It has then fetched the references one by one, each as often as it is listed,
  in document order and depth first, and collected the records in that order; for an index
  whose entries all refer to plain documents, the fetches are the references of the
  entries, in the order of the entries. When the fetch of an entry fails, after entries
  that were traversed, the traversal ends there with the error of the fetch: the object
  holds the records and the fetches of the entries before, then the failed fetch, and the
  entries after it are never fetched.
\<close>

theorem index_traversal_depth_first:
  "(fst (parse_sitemap E d content st) = None \<longleftrightarrow> sound E d content) \<and>
   (sound E n content \<and> n \<le> d \<longrightarrow>
      parse_sitemap E d content st =
        (None, st\<lparr>urls := urls st @ harvest E n content,
                  fetch_log := fetch_log st @ visits E n content\<rparr>)) \<and>
   (sound E n content \<and> fromstring E content = Inr root \<and>
    list_all (refers_to_urlset E) (findall ''sitemap'' root) \<longrightarrow>
      visits E n content = map reference (findall ''sitemap'' root)) \<and>
   (fromstring E content = Inr root \<and> findall ''sitemap'' root = good @ f # later \<and>
    list_all (entry_sound E m) good \<and> find_el ''loc'' f \<noteq> None \<and>
    requests_get E (reference f) = Inl e \<longrightarrow>
      parse_sitemap E (Suc m) content st =
        (Some e, (passed E m good st)
           \<lparr>fetch_log := fetch_log (passed E m good st) @ [reference f]\<rparr>))"
proof (intro conjI impI)
  show "fst (parse_sitemap E d content st) = None \<longleftrightarrow> sound E d content"
    by (rule normal_return_iff_sound)
next
  assume "sound E n content \<and> n \<le> d"
  then show "parse_sitemap E d content st =
        (None, st\<lparr>urls := urls st @ harvest E n content,
                  fetch_log := fetch_log st @ visits E n content\<rparr>)"
    by (intro parse_sitemap_sound) simp_all
next
  assume a: "sound E n content \<and> fromstring E content = Inr root \<and>
    list_all (refers_to_urlset E) (findall ''sitemap'' root)"
  then obtain m where "n = Suc m" by (cases n) auto
  with a show "visits E n content = map reference (findall ''sitemap'' root)"
    by (auto simp only: intro: visits_flat)
next
  assume a: "fromstring E content = Inr root \<and> findall ''sitemap'' root = good @ f # later \<and>
    list_all (entry_sound E m) good \<and> find_el ''loc'' f \<noteq> None \<and>
    requests_get E (reference f) = Inl e"
  then obtain loc where loc: "find_el ''loc'' f = Some loc" by auto
  then have ref: "reference f = elem_text loc" by (simp add: reference_def)
  from a have "sitemap_loop E m (good @ (f # later)) st =
      sitemap_loop E m (f # later) (passed E m good st)"
    by (intro sitemap_loop_after_passed) simp
  also have "\<dots> = (Some e, (passed E m good st)
                 \<lparr>fetch_log := fetch_log (passed E m good st) @ [reference f]\<rparr>)"
    using a loc ref by (simp add: fetch_sitemap_def)
  finally show "parse_sitemap E (Suc m) content st =
        (Some e, (passed E m good st)
           \<lparr>fetch_log := fetch_log (passed E m good st) @ [reference f]\<rparr>)"
    using a by simp
qed

text \<open>
  Two entries, each a document with one URL: two records, in the order of the entries. The
  same document listed twice: two fetches and two records. Three entries of which the
  second cannot be fetched: one record and two fetches.
\<close>

theorem index_traversal_depth_first_witness:
  "sound example_env 2 index_body \<and> (2::nat) \<le> recursion_limit example_env \<and>
   fromstring example_env index_body = Inr index_tree \<and>
   list_all (refers_to_urlset example_env) (findall ''sitemap'' index_tree) \<and>
   visits example_env 2 index_body =
     [Some ''https://example.com/a.xml'', Some ''https://example.com/b.xml''] \<and>
   parse_sitemap example_env (recursion_limit example_env) index_body fresh =
     (None,
       \<lparr>urls = [\<lparr>url = ''https://example.com/products/widget/'', lastmod = Some ''2024-01-01''\<rparr>,
                \<lparr>url = ''https://example.com/blogs/news/my-post/'', lastmod = None\<rparr>],
        fetch_log = [Some ''https://example.com/a.xml'', Some ''https://example.com/b.xml'']\<rparr>) \<and>
   sound example_env 2 twice_body \<and>
   parse_sitemap example_env (recursion_limit example_env) twice_body fresh =
     (None,
       \<lparr>urls = [\<lparr>url = ''https://example.com/products/widget/'', lastmod = Some ''2024-01-01''\<rparr>,
                \<lparr>url = ''https://example.com/products/widget/'', lastmod = Some ''2024-01-01''\<rparr>],
        fetch_log = [Some ''https://example.com/a.xml'', Some ''https://example.com/a.xml'']\<rparr>) \<and>
   sound example_env (recursion_limit example_env) index_body \<and>
   fromstring example_env partial_body = Inr partial_tree \<and>
   findall ''sitemap'' partial_tree = [a_entry] @ gone_entry # [b_entry] \<and>
   list_all (entry_sound example_env 1) [a_entry] \<and>
   find_el ''loc'' gone_entry = Some (el ''loc'' (Some ''https://example.com/gone.xml'') []) \<and>
   requests_get example_env (reference gone_entry) = Inl RequestException \<and>
   parse_sitemap example_env 2 partial_body fresh =
     (Some RequestException,
       \<lparr>urls = [\<lparr>url = ''https://example.com/products/widget/'', lastmod = Some ''2024-01-01''\<rparr>],
        fetch_log = [Some ''https://example.com/a.xml'', Some ''https://example.com/gone.xml'']\<rparr>)"
proof -
  have a: "sound example_env 2 index_body" by code_simp
  have le: "(2::nat) \<le> recursion_limit example_env" by code_simp
  have r: "fromstring example_env index_body = Inr index_tree" by code_simp
  have l: "list_all (refers_to_urlset example_env) (findall ''sitemap'' index_tree)" by code_simp
  have m: "map reference (findall ''sitemap'' index_tree) =
      [Some ''https://example.com/a.xml'', Some ''https://example.com/b.xml'']"
    by code_simp
  have b: "harvest example_env 2 index_body =
      [\<lparr>url = ''https://example.com/products/widget/'', lastmod = Some ''2024-01-01''\<rparr>,
       \<lparr>url = ''https://example.com/blogs/news/my-post/'', lastmod = None\<rparr>]"
    by code_simp
  have a2: "sound example_env 2 twice_body" by code_simp
  have b2: "harvest example_env 2 twice_body =
      [\<lparr>url = ''https://example.com/products/widget/'', lastmod = Some ''2024-01-01''\<rparr>,
       \<lparr>url = ''https://example.com/products/widget/'', lastmod = Some ''2024-01-01''\<rparr>]"
    by code_simp
  have v2: "visits example_env 2 twice_body =
      [Some ''https://example.com/a.xml'', Some ''https://example.com/a.xml'']"
    by code_simp
  note t = index_traversal_depth_first[of example_env "recursion_limit example_env" index_body
      fresh 2 index_tree]
  note t2 = index_traversal_depth_first[of example_env "recursion_limit example_env" twice_body
      fresh 2 twice_tree]
  have f1: "fromstring example_env partial_body = Inr partial_tree" by code_simp
  have f2: "findall ''sitemap'' partial_tree = [a_entry] @ gone_entry # [b_entry]" by code_simp
  have f3: "list_all (entry_sound example_env 1) [a_entry]" by code_simp
  have f4: "find_el ''loc'' gone_entry =
      Some (el ''loc'' (Some ''https://example.com/gone.xml'') [])"
    by code_simp
  have f5: "requests_get example_env (reference gone_entry) = Inl RequestException" by code_simp
  have f6: "(passed example_env 1 [a_entry] fresh)
      \<lparr>fetch_log := fetch_log (passed example_env 1 [a_entry] fresh) @ [reference gone_entry]\<rparr> =
      \<lparr>urls = [\<lparr>url = ''https://example.com/products/widget/'', lastmod = Some ''2024-01-01''\<rparr>],
       fetch_log = [Some ''https://example.com/a.xml'', Some ''https://example.com/gone.xml'']\<rparr>"
    by code_simp
  have hf: "fromstring example_env partial_body = Inr partial_tree \<and>
      findall ''sitemap'' partial_tree = [a_entry] @ gone_entry # [b_entry] \<and>
      list_all (entry_sound example_env 1) [a_entry] \<and> find_el ''loc'' gone_entry \<noteq> None \<and>
      requests_get example_env (reference gone_entry) = Inl RequestException"
    using f1 f2 f3 f4 f5 by simp
  from index_traversal_depth_first[of example_env _ partial_body fresh _ partial_tree
      "[a_entry]" gone_entry "[b_entry]" 1 RequestException,
      THEN conjunct2, THEN conjunct2, THEN conjunct2, rule_format, OF hf]
  have "parse_sitemap example_env (Suc 1) partial_body fresh =
      (Some RequestException, (passed example_env 1 [a_entry] fresh)
         \<lparr>fetch_log := fetch_log (passed example_env 1 [a_entry] fresh) @ [reference gone_entry]\<rparr>)" .
  then have f7: "parse_sitemap example_env 2 partial_body fresh =
     (Some RequestException,
       \<lparr>urls = [\<lparr>url = ''https://example.com/products/widget/'', lastmod = Some ''2024-01-01''\<rparr>],
        fetch_log = [Some ''https://example.com/a.xml'', Some ''https://example.com/gone.xml'']\<rparr>)"
    by (simp only: Suc_1 f6)
  from t a le r l m
  have v: "visits example_env 2 index_body =
      [Some ''https://example.com/a.xml'', Some ''https://example.com/b.xml'']"
    by simp
  from t a le
  have p: "parse_sitemap example_env (recursion_limit example_env) index_body fresh =
        (None, fresh\<lparr>urls := urls fresh @ harvest example_env 2 index_body,
                  fetch_log := fetch_log fresh @ visits example_env 2 index_body\<rparr>)"
    by blast
  from t2 a2 le
  have p2: "parse_sitemap example_env (recursion_limit example_env) twice_body fresh =
        (None, fresh\<lparr>urls := urls fresh @ harvest example_env 2 twice_body,
                  fetch_log := fetch_log fresh @ visits example_env 2 twice_body\<rparr>)"
    by blast
  from t p have s: "sound example_env (recursion_limit example_env) index_body"
    by simp
  from p v b have p': "parse_sitemap example_env (recursion_limit example_env) index_body fresh =
     (None,
       \<lparr>urls = [\<lparr>url = ''https://example.com/products/widget/'', lastmod = Some ''2024-01-01''\<rparr>,
                \<lparr>url = ''https://example.com/blogs/news/my-post/'', lastmod = None\<rparr>],
        fetch_log = [Some ''https://example.com/a.xml'', Some ''https://example.com/b.xml'']\<rparr>)"
    by (simp add: fresh_def)
  from p2 v2 b2 have p2': "parse_sitemap example_env (recursion_limit example_env) twice_body fresh =
     (None,
       \<lparr>urls = [\<lparr>url = ''https://example.com/products/widget/'', lastmod = Some ''2024-01-01''\<rparr>,
                \<lparr>url = ''https://example.com/products/widget/'', lastmod = Some ''2024-01-01''\<rparr>],
        fetch_log = [Some ''https://example.com/a.xml'', Some ''https://example.com/a.xml'']\<rparr>)"
    by (simp add: fresh_def)
  from a le r l v p' a2 p2' s f1 f2 f3 f4 f5 f7 show ?thesis by (intro conjI)
qed

text \<open>
  The claim as first stated has every referenced document fetched and parsed. The index
  below lists three documents; the second cannot be fetched, and the third never is.
\<close>

theorem failed_fetch_ends_traversal:
  "fromstring example_env partial_body = Inr partial_tree \<and>
   map reference (findall ''sitemap'' partial_tree) =
     [Some ''https://example.com/a.xml'', Some ''https://example.com/gone.xml'',
      Some ''https://example.com/b.xml''] \<and>
   requests_get example_env (Some ''https://example.com/gone.xml'') = Inl RequestException \<and>
   parse_sitemap example_env (recursion_limit example_env) partial_body fresh =
     (Some RequestException,
       \<lparr>urls = [\<lparr>url = ''https://example.com/products/widget/'', lastmod = Some ''2024-01-01''\<rparr>],
        fetch_log = [Some ''https://example.com/a.xml'', Some ''https://example.com/gone.xml'']\<rparr>)"
  by code_simp

text \<open>
  C4 (amended). The result of \<open>categorize_urls\<close> depends on the list of records and the URL
  library alone. When the URL parser accepts every URL of the list, it returns one
  categorized record for each record, in the same order, with the same url and lastmod and
  one of the four categories, \<open>page\<close> when the path satisfies no rule. When the URL parser
  rejects one of the URLs, it fails with the parser's \<open>ValueError\<close>.
\<close>

theorem categorize_total_on_accepted_urls:
  "(if list_all (accepted (lib E)) (urls st)
    then \<exists>cs. categorize_urls E st = Inr cs \<and> length cs = length (urls st) \<and>
           (\<forall>i<length cs.
              url (cs ! i) = url (urls st ! i) \<and>
              lastmod (cs ! i) = lastmod (urls st ! i) \<and>
              category (cs ! i) \<in> {''page'', ''product'', ''collection'', ''blog''} \<and>
              (\<not> product_rule (path_of (lib E) (url (urls st ! i))) \<and>
               \<not> collection_rule (path_of (lib E) (url (urls st ! i))) \<and>
               \<not> blog_rule (path_of (lib E) (url (urls st ! i)))
                 \<longrightarrow> category (cs ! i) = ''page''))
    else categorize_urls E st = Inl ValueError) \<and>
   (lib E' = lib E \<and> urls st' = urls st \<longrightarrow> categorize_urls E' st' = categorize_urls E st)"
proof (intro conjI)
  show "lib E' = lib E \<and> urls st' = urls st \<longrightarrow> categorize_urls E' st' = categorize_urls E st"
    by (simp add: categorize_urls_def)
  show "if list_all (accepted (lib E)) (urls st)
    then \<exists>cs. categorize_urls E st = Inr cs \<and> length cs = length (urls st) \<and>
           (\<forall>i<length cs.
              url (cs ! i) = url (urls st ! i) \<and>
              lastmod (cs ! i) = lastmod (urls st ! i) \<and>
              category (cs ! i) \<in> {''page'', ''product'', ''collection'', ''blog''} \<and>
              (\<not> product_rule (path_of (lib E) (url (urls st ! i))) \<and>
               \<not> collection_rule (path_of (lib E) (url (urls st ! i))) \<and>
               \<not> blog_rule (path_of (lib E) (url (urls st ! i)))
                 \<longrightarrow> category (cs ! i) = ''page''))
    else categorize_urls E st = Inl ValueError"
  proof (cases "list_all (accepted (lib E)) (urls st)")
    case True
    have "first_match p \<in> {''page'', ''product'', ''collection'', ''blog''}" for p
      by (simp add: first_match_def)
    moreover have "\<not> product_rule p \<and> \<not> collection_rule p \<and> \<not> blog_rule p
        \<longrightarrow> first_match p = ''page''" for p
      by (simp add: first_match_def)
    ultimately show ?thesis
      using True by (simp add: categorize_urls_accepted)
  next
    case False
    then show ?thesis
      by (simp add: categorize_urls_def categorize_loop_rejected)
  qed
qed

text \<open>
  The three example URLs are accepted; a URL whose authority opens a bracket and never
  closes it is not.
\<close>

theorem categorize_total_on_accepted_urls_witness:
  "list_all (accepted (lib example_env)) (urls three_urls) \<and>
   (1::nat) < length (urls three_urls) \<and>
   (\<exists>cs. categorize_urls example_env three_urls = Inr cs \<and> length cs = 3 \<and>
      url (cs ! 1) = ''https://example.com/about/'' \<and> lastmod (cs ! 1) = None \<and>
      category (cs ! 1) = ''page'') \<and>
   \<not> list_all (accepted (lib example_env)) (urls bracket_url) \<and>
   categorize_urls example_env bracket_url = Inl ValueError"
proof -
  have h: "list_all (accepted (lib example_env)) (urls three_urls)" by code_simp
  have l: "length (urls three_urls) = 3" by code_simp
  have u: "urls three_urls ! 1 = \<lparr>url = ''https://example.com/about/'', lastmod = None\<rparr>"
    by (simp add: three_urls_def)
  have c: "categorize_urls example_env three_urls =
      Inr [\<lparr>url = ''https://example.com/products/widget/'', lastmod = Some ''2024-01-01'',
             category = ''product''\<rparr>,
           \<lparr>url = ''https://example.com/about/'', lastmod = None, category = ''page''\<rparr>,
           \<lparr>url = ''https://example.com/blogs/news/my-post/'', lastmod = None,
             category = ''blog''\<rparr>]"
    by code_simp
  have n: "\<not> list_all (accepted (lib example_env)) (urls bracket_url)" by code_simp
  from categorize_total_on_accepted_urls[of example_env bracket_url example_env bracket_url] n
  have b: "categorize_urls example_env bracket_url = Inl ValueError" by simp
  from categorize_total_on_accepted_urls[of example_env three_urls example_env three_urls] h
  obtain cs where cs: "categorize_urls example_env three_urls = Inr cs"
      "length cs = length (urls three_urls)"
    by auto
  with c l u have "length cs = 3 \<and> url (cs ! 1) = ''https://example.com/about/'' \<and>
      lastmod (cs ! 1) = None \<and> category (cs ! 1) = ''page''"
    by auto
  with cs(1) h l n b show ?thesis by auto
qed

text \<open>
  The claim as first stated promises a result for every list of records. The list below has
  none.
\<close>

theorem categorize_fails_on_bracket_url:
  "categorize_urls example_env bracket_url = Inl ValueError"
  by code_simp

text \<open>
  C5. A run on a well-formed document with no URL at all ends with status 1 and leaves the
  output file behind: the write comes before the summary, and the summary fails on a frame
  without columns.
\<close>

theorem empty_sitemap_leaves_file_and_fails:
  "main example_env
     \<lparr>sitemap_url = ''https://example.com/empty.xml'', output_arg = Some ''out.xlsx''\<rparr> Map.empty =
     (1, [''out.xlsx'' \<mapsto> \<lparr>columns = [], rows = []\<rparr>])"
proof -
  have f: "fetch_sitemap example_env (Some ''https://example.com/empty.xml'')
        \<lparr>urls = [], fetch_log = []\<rparr> =
      (Inr empty_body, \<lparr>urls = [], fetch_log = [Some ''https://example.com/empty.xml'']\<rparr>)"
    by code_simp
  have p: "parse_sitemap example_env (recursion_limit example_env) empty_body
        \<lparr>urls = [], fetch_log = [Some ''https://example.com/empty.xml'']\<rparr> =
      (None, \<lparr>urls = [], fetch_log = [Some ''https://example.com/empty.xml'']\<rparr>)"
    by code_simp
  have c: "categorize_urls example_env
        \<lparr>urls = [], fetch_log = [Some ''https://example.com/empty.xml'']\<rparr> = Inr []"
    by code_simp
  have w: "to_excel example_env (output_name example_env (Some ''out.xlsx'')) (DataFrame []) = None"
    by code_simp
  have n: "output_name example_env (Some ''out.xlsx'') = ''out.xlsx''" by code_simp
  have e: "export_to_excel example_env [] (Some ''out.xlsx'') Map.empty =
      (Inl KeyError, [''out.xlsx'' \<mapsto> \<lparr>columns = [], rows = []\<rparr>])"
    using w n by (simp add: export_to_excel_def getitem_category_def DataFrame_def)
  show ?thesis
    unfolding main_def by (simp only: args.simps f p c e prod.case sum.case option.case)
qed

text \<open>
  C6. A pattern that matches a path matches every path that ends with it, and a path that
  is a product stays one behind any prefix. On a path without a newline each pattern holds
  exactly when the path ends with the keyword, an optional \<open>s\<close>, the segments of the rule
  and an optional final \<open>/\<close>. So \<open>/en/products/widget\<close> is a product, and
  \<open>/products/widget/reviews\<close>, where the rule would have to end before the end of the path,
  is a page.
\<close>

theorem patterns_match_at_any_suffix:
  "(\<forall>r. re_search r p \<longrightarrow> re_search r (pre @ p)) \<and>
   (classify p = ''product'' \<longrightarrow> classify (pre @ p) = ''product'') \<and>
   (newline \<notin> set p \<longrightarrow>
      re_search product_re p = product_rule p \<and>
      re_search collection_re p = collection_rule p \<and>
      re_search blog_re p = blog_rule p) \<and>
   classify ''/en/products/widget'' = ''product'' \<and>
   classify ''/products/widget/reviews'' = ''page''"
proof (intro conjI)
  show "\<forall>r. re_search r p \<longrightarrow> re_search r (pre @ p)"
    by (simp add: search_prefix)
  show "classify p = ''product'' \<longrightarrow> classify (pre @ p) = ''product''"
    by (auto simp: classify_def search_prefix split: if_splits)
  show "newline \<notin> set p \<longrightarrow>
      re_search product_re p = product_rule p \<and>
      re_search collection_re p = collection_rule p \<and>
      re_search blog_re p = blog_rule p"
    by (simp add: product_re_iff collection_re_iff blog_re_iff)
  show "classify ''/en/products/widget'' = ''product''" by code_simp
  show "classify ''/products/widget/reviews'' = ''page''" by code_simp
qed

text \<open>
  The path \<open>/products/widget\<close> behind the prefix \<open>/en\<close>.
\<close>

theorem patterns_match_at_any_suffix_witness:
  "re_search product_re ''/products/widget'' \<and>
   re_search product_re (''/en'' @ ''/products/widget'') \<and>
   classify ''/products/widget'' = ''product'' \<and>
   classify (''/en'' @ ''/products/widget'') = ''product'' \<and>
   newline \<notin> set ''/products/widget'' \<and>
   product_rule ''/products/widget'' \<and>
   \<not> collection_rule ''/products/widget'' \<and>
   \<not> blog_rule ''/products/widget''"
proof -
  have a: "re_search product_re ''/products/widget''" by code_simp
  have b: "classify ''/products/widget'' = ''product''" by code_simp
  have c: "newline \<notin> set ''/products/widget''" by code_simp
  have d: "\<not> re_search collection_re ''/products/widget''" by code_simp
  have e: "\<not> re_search blog_re ''/products/widget''" by code_simp
  from patterns_match_at_any_suffix[of "''/products/widget''" "''/en''"] a b c d e
  show ?thesis by blast
qed

text \<open>
  C7 (amended). The category of a URL depends on the path component that the URL parser
  returns for it, and on nothing else: in any two runs, on lists of URLs that the URL parser
  accepts, two URLs with the same path component get the same category, whatever the rest
  of their records, the other records of the lists and the state of the parser object. Two
  URLs put together from the same path text, each with a scheme, a host and a query or
  fragment of its own, have the same path component, and so the same category, when the path
  text holds no \<open>;\<close> or when the two schemes agree on whether parameters are cut off the
  path.
\<close>

theorem category_depends_on_path_only:
  "(list_all (accepted (lib E1)) (urls st1) \<and> list_all (accepted (lib E2)) (urls st2) \<longrightarrow>
      (\<exists>cs1 cs2. categorize_urls E1 st1 = Inr cs1 \<and> categorize_urls E2 st2 = Inr cs2 \<and>
         length cs1 = length (urls st1) \<and> length cs2 = length (urls st2) \<and>
         (\<forall>i<length cs1. \<forall>j<length cs2.
            path_of (lib E1) (url (urls st1 ! i)) = path_of (lib E2) (url (urls st2 ! j)) \<longrightarrow>
            category (cs1 ! i) = category (cs2 ! j)))) \<and>
   (url_parts sch1 host1 p sfx1 \<and> url_parts sch2 host2 p sfx2 \<and>
    (CHR '';'' \<notin> set p \<or> takes_params sch1 = takes_params sch2) \<longrightarrow>
      path_of (lib E1) (compose_url sch1 host1 p sfx1) =
        path_of (lib E2) (compose_url sch2 host2 p sfx2) \<and>
      (\<exists>c. categorize_urls E1 (st1\<lparr>urls := [\<lparr>url = compose_url sch1 host1 p sfx1, lastmod = l1\<rparr>]\<rparr>) =
              Inr [\<lparr>url = compose_url sch1 host1 p sfx1, lastmod = l1, category = c\<rparr>] \<and>
           categorize_urls E2 (st2\<lparr>urls := [\<lparr>url = compose_url sch2 host2 p sfx2, lastmod = l2\<rparr>]\<rparr>) =
              Inr [\<lparr>url = compose_url sch2 host2 p sfx2, lastmod = l2, category = c\<rparr>]))"
proof (intro conjI impI)
  assume a: "list_all (accepted (lib E1)) (urls st1) \<and> list_all (accepted (lib E2)) (urls st2)"
  then have c1: "categorize_urls E1 st1 = Inr (map (categorized (lib E1)) (urls st1))"
    and c2: "categorize_urls E2 st2 = Inr (map (categorized (lib E2)) (urls st2))"
    by (simp_all add: categorize_urls_def categorize_loop_accepted)
  have "category (map (categorized (lib E1)) (urls st1) ! i) =
        category (map (categorized (lib E2)) (urls st2) ! j)"
    if "i < length (urls st1)" "j < length (urls st2)"
      "path_of (lib E1) (url (urls st1 ! i)) = path_of (lib E2) (url (urls st2 ! j))" for i j
    using that by (simp add: categorized_def)
  with c1 c2 show "\<exists>cs1 cs2. categorize_urls E1 st1 = Inr cs1 \<and> categorize_urls E2 st2 = Inr cs2 \<and>
         length cs1 = length (urls st1) \<and> length cs2 = length (urls st2) \<and>
         (\<forall>i<length cs1. \<forall>j<length cs2.
            path_of (lib E1) (url (urls st1 ! i)) = path_of (lib E2) (url (urls st2 ! j)) \<longrightarrow>
            category (cs1 ! i) = category (cs2 ! j))"
    by simp
next
  assume a: "url_parts sch1 host1 p sfx1 \<and> url_parts sch2 host2 p sfx2 \<and>
    (CHR '';'' \<notin> set p \<or> takes_params sch1 = takes_params sch2)"
  from a have cut: "cut_params sch1 p = cut_params sch2 p"
    by (auto simp: cut_params_def)
  from a composed_accepted[of sch1 host1 p sfx1 "lib E1" l1]
  have a1: "accepted (lib E1) \<lparr>url = compose_url sch1 host1 p sfx1, lastmod = l1\<rparr>"
    and p1: "path_of (lib E1) (compose_url sch1 host1 p sfx1) = cut_params sch1 p"
    by simp_all
  from a composed_accepted[of sch2 host2 p sfx2 "lib E2" l2]
  have a2: "accepted (lib E2) \<lparr>url = compose_url sch2 host2 p sfx2, lastmod = l2\<rparr>"
    and p2: "path_of (lib E2) (compose_url sch2 host2 p sfx2) = cut_params sch2 p"
    by simp_all
  from p1 p2 cut
  have eq: "path_of (lib E1) (compose_url sch1 host1 p sfx1) =
        path_of (lib E2) (compose_url sch2 host2 p sfx2)"
    by simp
  have k1: "categorize_urls E1 (st1\<lparr>urls := [\<lparr>url = compose_url sch1 host1 p sfx1, lastmod = l1\<rparr>]\<rparr>) =
      Inr [categorized (lib E1) \<lparr>url = compose_url sch1 host1 p sfx1, lastmod = l1\<rparr>]"
    using a1 categorize_loop_accepted[of "lib E1"
        "[\<lparr>url = compose_url sch1 host1 p sfx1, lastmod = l1\<rparr>]" "[]"]
    by (simp add: categorize_urls_def)
  have k2: "categorize_urls E2 (st2\<lparr>urls := [\<lparr>url = compose_url sch2 host2 p sfx2, lastmod = l2\<rparr>]\<rparr>) =
      Inr [categorized (lib E2) \<lparr>url = compose_url sch2 host2 p sfx2, lastmod = l2\<rparr>]"
    using a2 categorize_loop_accepted[of "lib E2"
        "[\<lparr>url = compose_url sch2 host2 p sfx2, lastmod = l2\<rparr>]" "[]"]
    by (simp add: categorize_urls_def)
  have "path_of (lib E1) (compose_url sch1 host1 p sfx1) =
        path_of (lib E2) (compose_url sch2 host2 p sfx2) \<and>
      (\<exists>c. categorize_urls E1 (st1\<lparr>urls := [\<lparr>url = compose_url sch1 host1 p sfx1, lastmod = l1\<rparr>]\<rparr>) =
              Inr [\<lparr>url = compose_url sch1 host1 p sfx1, lastmod = l1, category = c\<rparr>] \<and>
           categorize_urls E2 (st2\<lparr>urls := [\<lparr>url = compose_url sch2 host2 p sfx2, lastmod = l2\<rparr>]\<rparr>) =
              Inr [\<lparr>url = compose_url sch2 host2 p sfx2, lastmod = l2, category = c\<rparr>])"
    using eq k1 k2 by (simp add: categorized_def)
  then show "path_of (lib E1) (compose_url sch1 host1 p sfx1) =
        path_of (lib E2) (compose_url sch2 host2 p sfx2)"
    and "\<exists>c. categorize_urls E1 (st1\<lparr>urls := [\<lparr>url = compose_url sch1 host1 p sfx1, lastmod = l1\<rparr>]\<rparr>) =
              Inr [\<lparr>url = compose_url sch1 host1 p sfx1, lastmod = l1, category = c\<rparr>] \<and>
           categorize_urls E2 (st2\<lparr>urls := [\<lparr>url = compose_url sch2 host2 p sfx2, lastmod = l2\<rparr>]\<rparr>) =
              Inr [\<lparr>url = compose_url sch2 host2 p sfx2, lastmod = l2, category = c\<rparr>]"
    by blast+
qed

text \<open>
  Two URLs that differ in scheme, host, query and fragment and share the path
  \<open>/products/widget\<close>.
\<close>

theorem category_depends_on_path_only_witness:
  "url_parts ''http'' ''shop.example.org'' ''/products/widget'' ''?ref=mail#top'' \<and>
   url_parts ''HTTPS'' ''example.com'' ''/products/widget'' [] \<and>
   CHR '';'' \<notin> set ''/products/widget'' \<and>
   compose_url ''http'' ''shop.example.org'' ''/products/widget'' ''?ref=mail#top'' =
     ''http://shop.example.org/products/widget?ref=mail#top'' \<and>
   path_of (lib example_env) ''http://shop.example.org/products/widget?ref=mail#top'' =
     ''/products/widget'' \<and>
   path_of (lib example_env) (compose_url ''HTTPS'' ''example.com'' ''/products/widget'' []) =
     ''/products/widget'' \<and>
   list_all (accepted (lib example_env)) [with_query, without_query] \<and>
   path_of (lib example_env) (url ([with_query, without_query] ! 0)) = ''/products/widget'' \<and>
   path_of (lib example_env) (url ([with_query, without_query] ! 1)) = ''/products/widget'' \<and>
   (case categorize_urls example_env (fresh\<lparr>urls := [with_query, without_query]\<rparr>) of
      Inl e \<Rightarrow> False
    | Inr cs \<Rightarrow> length cs = 2 \<and> category (cs ! 0) = category (cs ! 1))"
proof -
  have u1: "url_parts ''http'' ''shop.example.org'' ''/products/widget'' ''?ref=mail#top''"
    by code_simp
  have u2: "url_parts ''HTTPS'' ''example.com'' ''/products/widget'' []" by code_simp
  have sc: "CHR '';'' \<notin> set ''/products/widget''" by code_simp
  have c1: "compose_url ''http'' ''shop.example.org'' ''/products/widget'' ''?ref=mail#top'' =
     ''http://shop.example.org/products/widget?ref=mail#top''"
    by code_simp
  have p1: "path_of (lib example_env) ''http://shop.example.org/products/widget?ref=mail#top'' =
     ''/products/widget''"
    by code_simp
  note t = category_depends_on_path_only[of example_env "fresh\<lparr>urls := [with_query, without_query]\<rparr>"
      example_env "fresh\<lparr>urls := [with_query, without_query]\<rparr>"
      "''http''" "''shop.example.org''" "''/products/widget''" "''?ref=mail#top''"
      "''HTTPS''" "''example.com''" "[]" None None]
  from t u1 u2 sc
  have "path_of (lib example_env)
          (compose_url ''http'' ''shop.example.org'' ''/products/widget'' ''?ref=mail#top'') =
        path_of (lib example_env) (compose_url ''HTTPS'' ''example.com'' ''/products/widget'' [])"
    by blast
  with c1 p1
  have p2: "path_of (lib example_env) (compose_url ''HTTPS'' ''example.com'' ''/products/widget'' []) =
     ''/products/widget''"
    by simp
  have a2: "list_all (accepted (lib example_env)) [with_query, without_query]" by code_simp
  have q1: "path_of (lib example_env) (url ([with_query, without_query] ! 1)) = ''/products/widget''"
    by code_simp
  have q0: "path_of (lib example_env) (url ([with_query, without_query] ! 0)) = ''/products/widget''"
    by code_simp
  from t a2
  obtain cs1 cs2 where cs:
      "categorize_urls example_env (fresh\<lparr>urls := [with_query, without_query]\<rparr>) = Inr cs1"
      "categorize_urls example_env (fresh\<lparr>urls := [with_query, without_query]\<rparr>) = Inr cs2"
      "length cs1 = length [with_query, without_query]"
      "\<forall>i<length cs1. \<forall>j<length cs2.
            path_of (lib example_env) (url ([with_query, without_query] ! i)) =
            path_of (lib example_env) (url ([with_query, without_query] ! j)) \<longrightarrow>
            category (cs1 ! i) = category (cs2 ! j)"
    by auto
  from cs(1,2) have same: "cs2 = cs1" by simp
  from cs(3) have len: "length cs1 = 2" by simp
  from cs(4) same len q0 q1 have "category (cs1 ! 0) = category (cs1 ! 1)"
    by simp
  with cs(1) len have m: "(case categorize_urls example_env (fresh\<lparr>urls := [with_query, without_query]\<rparr>) of
      Inl e \<Rightarrow> False
    | Inr cs \<Rightarrow> length cs = 2 \<and> category (cs ! 0) = category (cs ! 1))"
    by simp
  from u1 u2 sc c1 p1 p2 a2 q0 q1 m show ?thesis by (simp only: simp_thms)
qed

text \<open>
  The claim as first stated gives the same category to any two URLs that differ only in
  scheme, host, query or fragment. The two URLs below differ in their scheme alone. Under
  \<open>https\<close> the parameter \<open>;x\<close> is cut off, the path \<open>/products/\<close> is left and the URL is a
  page; under \<open>foo\<close> the path is \<open>/products/;x\<close> and the URL is a product.
\<close>

theorem scheme_changes_category:
  "categorize_urls example_env (fresh\<lparr>urls := [semicolon_https]\<rparr>) =
     Inr [\<lparr>url = ''https://example.com/products/;x'', lastmod = None, category = ''page''\<rparr>] \<and>
   categorize_urls example_env (fresh\<lparr>urls := [semicolon_foo]\<rparr>) =
     Inr [\<lparr>url = ''foo://example.com/products/;x'', lastmod = None, category = ''product''\<rparr>]"
  by code_simp

text \<open>
  C8. A well-formed document none of whose elements is in the sitemap namespace is parsed,
  where the stack holds the call, without an error, without a fetch and without a new
  record.
\<close>

theorem foreign_namespace_yields_nothing:
  assumes "fromstring E content = Inr root"
    and "\<forall>e\<in>set (iter root). \<not> in_sitemap_namespace (tag e)"
  shows "parse_sitemap E (Suc n) content st = (None, st)"
  using assms(1) findall_foreign[OF assms(2)]
  by simp

text \<open>
  The example document has no namespace at all.
\<close>

theorem foreign_namespace_yields_nothing_witness:
  "fromstring example_env plain_body = Inr plain_tree \<and>
   list_all (\<lambda>e. \<not> in_sitemap_namespace (tag e)) (iter plain_tree) \<and>
   length (iter plain_tree) = 3 \<and>
   parse_sitemap example_env 1 plain_body fresh = (None, fresh)"
proof -
  have a: "fromstring example_env plain_body = Inr plain_tree" by code_simp
  have l: "list_all (\<lambda>e. \<not> in_sitemap_namespace (tag e)) (iter plain_tree)" by code_simp
  then have b: "\<forall>e\<in>set (iter plain_tree). \<not> in_sitemap_namespace (tag e)"
    by (simp only: list_all_iff)
  have c: "length (iter plain_tree) = 3" by code_simp
  from foreign_namespace_yields_nothing[OF a b, of 0 fresh] a l c
  show ?thesis by simp
qed

text \<open>
  C9 (amended). A well-formed document with a \<open>sitemap\<close> entry that has no \<open>loc\<close> child is
  never parsed to a normal return, whatever the stack holds. When the entries before it are
  traversed without an error, the call fails at that entry with \<open>AttributeError\<close>, with the
  object as those entries left it; this is so in particular when it is the first entry.
  When an entry before it fails, after entries that were traversed, the call fails with the
  error of that entry instead: the error of the fetch when the reference cannot be fetched,
  and otherwise the error that parsing the fetched document ends with.
\<close>

theorem sitemap_without_loc_raises:
  assumes "fromstring E content = Inr root"
    and "findall ''sitemap'' root = before @ s # later"
    and "find_el ''loc'' s = None"
  shows "(\<forall>d st'. parse_sitemap E d content st \<noteq> (None, st')) \<and>
         (list_all (entry_sound E m) before \<longrightarrow>
            parse_sitemap E (Suc m) content st = (Some AttributeError, passed E m before st)) \<and>
         (\<forall>good f rest e.
            before = good @ f # rest \<and> list_all (entry_sound E m) good \<and>
            find_el ''loc'' f \<noteq> None \<and> requests_get E (reference f) = Inl e \<longrightarrow>
            parse_sitemap E (Suc m) content st =
              (Some e, (passed E m good st)
                 \<lparr>fetch_log := fetch_log (passed E m good st) @ [reference f]\<rparr>)) \<and>
         (\<forall>good f rest sub e st2.
            before = good @ f # rest \<and> list_all (entry_sound E m) good \<and>
            find_el ''loc'' f \<noteq> None \<and> requests_get E (reference f) = Inr sub \<and>
            parse_sitemap E m sub
              ((passed E m good st)\<lparr>fetch_log := fetch_log (passed E m good st) @ [reference f]\<rparr>) =
              (Some e, st2) \<longrightarrow>
            parse_sitemap E (Suc m) content st = (Some e, st2))"
proof (intro conjI allI impI)
  fix d st'
  show "parse_sitemap E d content st \<noteq> (None, st')"
  proof (cases d)
    case 0
    then show ?thesis by simp
  next
    case (Suc k)
    have "fst (sitemap_loop E k (before @ s # later) st) \<noteq> None"
      using assms(3) by (rule sitemap_loop_no_loc)
    then show ?thesis
      using Suc assms(1,2)
      by (auto split: option.splits prod.splits)
  qed
next
  assume "list_all (entry_sound E m) before"
  then have "sitemap_loop E m (before @ s # later) st =
      sitemap_loop E m (s # later) (passed E m before st)"
    by (rule sitemap_loop_after_passed)
  then show "parse_sitemap E (Suc m) content st = (Some AttributeError, passed E m before st)"
    using assms by simp
next
  fix good f rest e
  assume a: "before = good @ f # rest \<and> list_all (entry_sound E m) good \<and>
            find_el ''loc'' f \<noteq> None \<and> requests_get E (reference f) = Inl e"
  then obtain loc where loc: "find_el ''loc'' f = Some loc" by auto
  then have ref: "reference f = elem_text loc" by (simp add: reference_def)
  from a have "sitemap_loop E m (good @ (f # rest @ s # later)) st =
      sitemap_loop E m (f # rest @ s # later) (passed E m good st)"
    by (intro sitemap_loop_after_passed) simp
  also have "\<dots> = (Some e, (passed E m good st)
                 \<lparr>fetch_log := fetch_log (passed E m good st) @ [reference f]\<rparr>)"
    using a loc ref by (simp add: fetch_sitemap_def)
  finally show "parse_sitemap E (Suc m) content st =
              (Some e, (passed E m good st)
                 \<lparr>fetch_log := fetch_log (passed E m good st) @ [reference f]\<rparr>)"
    using assms(1,2) a by simp
next
  fix good f rest sub e st2
  assume a: "before = good @ f # rest \<and> list_all (entry_sound E m) good \<and>
            find_el ''loc'' f \<noteq> None \<and> requests_get E (reference f) = Inr sub \<and>
            parse_sitemap E m sub
              ((passed E m good st)\<lparr>fetch_log := fetch_log (passed E m good st) @ [reference f]\<rparr>) =
              (Some e, st2)"
  then obtain loc where loc: "find_el ''loc'' f = Some loc" by auto
  then have ref: "reference f = elem_text loc" by (simp add: reference_def)
  from a have "sitemap_loop E m (good @ (f # rest @ s # later)) st =
      sitemap_loop E m (f # rest @ s # later) (passed E m good st)"
    by (intro sitemap_loop_after_passed) simp
  also have "\<dots> = (Some e, st2)"
    using a loc ref by (simp add: fetch_sitemap_def del: parse_sitemap.simps)
  finally show "parse_sitemap E (Suc m) content st = (Some e, st2)"
    using assms(1,2) a by simp
qed

text \<open>
  The entry without \<open>loc\<close> first of two; after an entry that is traversed; after an entry
  whose reference cannot be fetched; after an entry whose document is not well-formed.
\<close>

theorem sitemap_without_loc_raises_witness:
  "fromstring example_env noloc_body = Inr noloc_tree \<and>
   findall ''sitemap'' noloc_tree = [] @ no_loc_entry # [a_entry] \<and>
   find_el ''loc'' no_loc_entry = None \<and>
   parse_sitemap example_env 1 noloc_body fresh = (Some AttributeError, fresh) \<and>
   parse_sitemap example_env (recursion_limit example_env) noloc_body fresh \<noteq> (None, fresh) \<and>
   fromstring example_env late_body = Inr late_tree \<and>
   findall ''sitemap'' late_tree = [a_entry] @ no_loc_entry # [] \<and>
   list_all (entry_sound example_env 1) [a_entry] \<and>
   parse_sitemap example_env 2 late_body fresh =
     (Some AttributeError,
      \<lparr>urls = [\<lparr>url = ''https://example.com/products/widget/'', lastmod = Some ''2024-01-01''\<rparr>],
       fetch_log = [Some ''https://example.com/a.xml'']\<rparr>) \<and>
   fromstring example_env broken_body = Inr broken_tree \<and>
   findall ''sitemap'' broken_tree = [gone_entry] @ el ''sitemap'' None [] # [] \<and>
   find_el ''loc'' (el ''sitemap'' None []) = None \<and>
   find_el ''loc'' gone_entry =
     Some (el ''loc'' (Some ''https://example.com/gone.xml'') []) \<and>
   requests_get example_env (reference gone_entry) = Inl RequestException \<and>
   parse_sitemap example_env 1 broken_body fresh =
     (Some RequestException, \<lparr>urls = [], fetch_log = [Some ''https://example.com/gone.xml'']\<rparr>) \<and>
   fromstring example_env spoiled_body = Inr spoiled_tree \<and>
   findall ''sitemap'' spoiled_tree = [malformed_entry] @ el ''sitemap'' None [] # [] \<and>
   find_el ''loc'' malformed_entry =
     Some (el ''loc'' (Some ''https://example.com/malformed.xml'') []) \<and>
   requests_get example_env (reference malformed_entry) = Inr malformed_body \<and>
   parse_sitemap example_env 1 malformed_body
     \<lparr>urls = [], fetch_log = [Some ''https://example.com/malformed.xml'']\<rparr> =
     (Some ParseError, \<lparr>urls = [], fetch_log = [Some ''https://example.com/malformed.xml'']\<rparr>) \<and>
   parse_sitemap example_env 2 spoiled_body fresh =
     (Some ParseError, \<lparr>urls = [], fetch_log = [Some ''https://example.com/malformed.xml'']\<rparr>)"
proof -
  \<comment> \<open>the entry without \<open>loc\<close> comes first\<close>
  have a1: "fromstring example_env noloc_body = Inr noloc_tree" by code_simp
  have a2: "findall ''sitemap'' noloc_tree = [] @ no_loc_entry # [a_entry]" by code_simp
  have a3: "find_el ''loc'' no_loc_entry = None" by code_simp
  note ta = sitemap_without_loc_raises[OF a1 a2 a3, of fresh 0]
  have e0: "list_all (entry_sound example_env 0) []" by simp
  from ta[THEN conjunct2, THEN conjunct1, rule_format, OF e0]
  have "parse_sitemap example_env (Suc 0) noloc_body fresh =
      (Some AttributeError, passed example_env 0 [] fresh)" .
  then have a5: "parse_sitemap example_env 1 noloc_body fresh = (Some AttributeError, fresh)"
    by (simp only: passed_nothing One_nat_def)
  from ta[THEN conjunct1, rule_format, of "recursion_limit example_env" fresh]
  have a6: "parse_sitemap example_env (recursion_limit example_env) noloc_body fresh \<noteq>
      (None, fresh)" .
  \<comment> \<open>it comes after an entry that is traversed\<close>
  have b1: "fromstring example_env late_body = Inr late_tree" by code_simp
  have b2: "findall ''sitemap'' late_tree = [a_entry] @ no_loc_entry # []" by code_simp
  have b3: "list_all (entry_sound example_env 1) [a_entry]" by code_simp
  have b4: "passed example_env 1 [a_entry] fresh =
      \<lparr>urls = [\<lparr>url = ''https://example.com/products/widget/'', lastmod = Some ''2024-01-01''\<rparr>],
       fetch_log = [Some ''https://example.com/a.xml'']\<rparr>"
    by code_simp
  note tb = sitemap_without_loc_raises[OF b1 b2 a3, of fresh 1]
  from tb[THEN conjunct2, THEN conjunct1, rule_format, OF b3]
  have "parse_sitemap example_env (Suc 1) late_body fresh =
      (Some AttributeError, passed example_env 1 [a_entry] fresh)" .
  then have b5: "parse_sitemap example_env 2 late_body fresh =
     (Some AttributeError,
      \<lparr>urls = [\<lparr>url = ''https://example.com/products/widget/'', lastmod = Some ''2024-01-01''\<rparr>],
       fetch_log = [Some ''https://example.com/a.xml'']\<rparr>)"
    by (simp only: Suc_1 b4)
  \<comment> \<open>it comes after an entry whose fetch fails\<close>
  have c1: "fromstring example_env broken_body = Inr broken_tree" by code_simp
  have c2: "findall ''sitemap'' broken_tree = [gone_entry] @ el ''sitemap'' None [] # []"
    by code_simp
  have c3: "find_el ''loc'' (el ''sitemap'' None []) = None" by code_simp
  have c4: "find_el ''loc'' gone_entry =
     Some (el ''loc'' (Some ''https://example.com/gone.xml'') [])"
    by code_simp
  have c5: "requests_get example_env (reference gone_entry) = Inl RequestException" by code_simp
  have c6: "reference gone_entry = Some ''https://example.com/gone.xml''" by code_simp
  have c8: "(passed example_env 0 [] fresh)
      \<lparr>fetch_log := fetch_log (passed example_env 0 [] fresh) @ [reference gone_entry]\<rparr> =
      \<lparr>urls = [], fetch_log = [Some ''https://example.com/gone.xml'']\<rparr>"
    by (simp only: passed_nothing c6) (simp add: fresh_def)
  note tc = sitemap_without_loc_raises[OF c1 c2 c3, of fresh 0]
  have hc: "[gone_entry] = [] @ gone_entry # [] \<and> list_all (entry_sound example_env 0) [] \<and>
      find_el ''loc'' gone_entry \<noteq> None \<and>
      requests_get example_env (reference gone_entry) = Inl RequestException"
    using c4 c5 by simp
  from tc[THEN conjunct2, THEN conjunct2, THEN conjunct1, rule_format, OF hc]
  have "parse_sitemap example_env (Suc 0) broken_body fresh =
      (Some RequestException, (passed example_env 0 [] fresh)
         \<lparr>fetch_log := fetch_log (passed example_env 0 [] fresh) @ [reference gone_entry]\<rparr>)" .
  then have c7: "parse_sitemap example_env 1 broken_body fresh =
     (Some RequestException, \<lparr>urls = [], fetch_log = [Some ''https://example.com/gone.xml'']\<rparr>)"
    by (simp only: c8 One_nat_def)
  \<comment> \<open>it comes after an entry whose document is not well-formed\<close>
  have d1: "fromstring example_env spoiled_body = Inr spoiled_tree" by code_simp
  have d2: "findall ''sitemap'' spoiled_tree = [malformed_entry] @ el ''sitemap'' None [] # []"
    by code_simp
  have d4: "find_el ''loc'' malformed_entry =
     Some (el ''loc'' (Some ''https://example.com/malformed.xml'') [])"
    by code_simp
  have d5: "requests_get example_env (reference malformed_entry) = Inr malformed_body"
    by code_simp
  have d6: "reference malformed_entry = Some ''https://example.com/malformed.xml''" by code_simp
  have d7: "parse_sitemap example_env 1 malformed_body
     \<lparr>urls = [], fetch_log = [Some ''https://example.com/malformed.xml'']\<rparr> =
     (Some ParseError, \<lparr>urls = [], fetch_log = [Some ''https://example.com/malformed.xml'']\<rparr>)"
    by code_simp
  have d8: "(passed example_env 1 [] fresh)
      \<lparr>fetch_log := fetch_log (passed example_env 1 [] fresh) @ [reference malformed_entry]\<rparr> =
      \<lparr>urls = [], fetch_log = [Some ''https://example.com/malformed.xml'']\<rparr>"
    by (simp only: passed_nothing d6) (simp add: fresh_def)
  note td = sitemap_without_loc_raises[OF d1 d2 c3, of fresh 1]
  have hd: "[malformed_entry] = [] @ malformed_entry # [] \<and>
      list_all (entry_sound example_env 1) [] \<and>
      find_el ''loc'' malformed_entry \<noteq> None \<and>
      requests_get example_env (reference malformed_entry) = Inr malformed_body \<and>
      parse_sitemap example_env 1 malformed_body
        ((passed example_env 1 [] fresh)
           \<lparr>fetch_log := fetch_log (passed example_env 1 [] fresh) @
              [reference malformed_entry]\<rparr>) =
        (Some ParseError,
         \<lparr>urls = [], fetch_log = [Some ''https://example.com/malformed.xml'']\<rparr>)"
    using d4 d5 d7 by (simp only: d8) simp
  from td[THEN conjunct2, THEN conjunct2, THEN conjunct2, rule_format, OF hd]
  have "parse_sitemap example_env (Suc 1) spoiled_body fresh =
      (Some ParseError,
       \<lparr>urls = [], fetch_log = [Some ''https://example.com/malformed.xml'']\<rparr>)" .
  then have d9: "parse_sitemap example_env 2 spoiled_body fresh =
     (Some ParseError, \<lparr>urls = [], fetch_log = [Some ''https://example.com/malformed.xml'']\<rparr>)"
    by (simp only: Suc_1)
  from a1 a2 a3 a5 a6 b1 b2 b3 b5 c1 c2 c3 c4 c5 c7 d1 d2 d4 d5 d7 d9
  show ?thesis by (intro conjI)
qed

text \<open>
  The claim as first stated promises the attribute error for every such document. In the
  document below the entry without \<open>loc\<close> is the second one, and the reference of the first
  cannot be fetched: the call fails with the error of the fetch.
\<close>

theorem earlier_failure_hides_missing_loc:
  "fromstring example_env broken_body = Inr broken_tree \<and>
   el ''sitemap'' None [] \<in> set (findall ''sitemap'' broken_tree) \<and>
   find_el ''loc'' (el ''sitemap'' None []) = None \<and>
   parse_sitemap example_env (recursion_limit example_env) broken_body fresh =
     (Some RequestException,
      \<lparr>urls = [], fetch_log = [Some ''https://example.com/gone.xml'']\<rparr>)"
  by code_simp

text \<open>
  C10. When the write succeeds, the export of an empty list of records writes the file,
  with a frame that has no column, and then fails with \<open>KeyError\<close> on the \<open>category\<close>
  column.
\<close>

theorem export_of_nothing_writes_then_fails:
  assumes "to_excel E (output_name E output_file) (DataFrame []) = None"
  shows "export_to_excel E [] output_file fs =
     (Inl KeyError, fs(output_name E output_file \<mapsto> DataFrame []))"
  using assms by (simp add: export_to_excel_def getitem_category_def DataFrame_def)

text \<open>
  The example surroundings accept the path \<open>out.xlsx\<close>.
\<close>

theorem export_of_nothing_writes_then_fails_witness:
  "to_excel example_env (output_name example_env (Some ''out.xlsx'')) (DataFrame []) = None \<and>
   output_name example_env (Some ''out.xlsx'') = ''out.xlsx'' \<and>
   fst (export_to_excel example_env [] (Some ''out.xlsx'') Map.empty) = Inl KeyError \<and>
   snd (export_to_excel example_env [] (Some ''out.xlsx'') Map.empty) ''out.xlsx'' =
     Some \<lparr>columns = [], rows = []\<rparr>"
proof -
  have a: "to_excel example_env (output_name example_env (Some ''out.xlsx'')) (DataFrame []) = None"
    by code_simp
  have b: "output_name example_env (Some ''out.xlsx'') = ''out.xlsx''" by code_simp
  from export_of_nothing_writes_then_fails[OF a, of Map.empty] a b
  show ?thesis by (simp add: DataFrame_def)
qed

end
